theory Spec2Isabelle
  imports
    Complex_Main
    "HOL-Library.Char_ord"
    "HOL-Library.List_Lexorder"
    "HOL-Library.Sublist"
    "HOL-Library.AList"
    "HOL-Library.Log_Nat"
begin

section \<open>Strings\<close>

text \<open>
  Python strings are sequences of code points compared lexicographically by code point.
  They are modelled as \<^typ>\<open>string\<close> with the order of \<open>Char_ord\<close> and
  \<open>List_Lexorder\<close>; a \<^typ>\<open>char\<close> stands for a code point below 256 (Latin-1).
\<close>

definition lower_char :: "char \<Rightarrow> char" where
  \<comment> \<open>\<open>str.lower()\<close> on one code point: A-Z and the Latin-1 capitals move up by 32.\<close>
  "lower_char c =
     (let n = (of_char c :: nat)
      in if (65 \<le> n \<and> n \<le> 90) \<or> (192 \<le> n \<and> n \<le> 222 \<and> n \<noteq> 215)
         then char_of (n + 32) else c)"

definition lower :: "string \<Rightarrow> string" where
  "lower s = map lower_char s"

fun startswith :: "string \<Rightarrow> string \<Rightarrow> bool" where
  \<comment> \<open>\<open>s.startswith(p)\<close>\<close>
  "startswith s [] = True"
| "startswith [] (p # ps) = False"
| "startswith (c # s) (p # ps) = (c = p \<and> startswith s ps)"

fun contains :: "string \<Rightarrow> string \<Rightarrow> bool" where
  \<comment> \<open>\<open>p in s\<close>\<close>
  "contains p [] = (p = [])"
| "contains p (c # s) = (startswith (c # s) p \<or> contains p s)"

definition date_part :: "string \<Rightarrow> string" where
  \<comment> \<open>\<open>timestamp_str.split("T")[0]\<close>: everything before the first \<open>T\<close>.\<close>
  "date_part timestamp_str = takeWhile (\<lambda>c. c \<noteq> CHR ''T'') timestamp_str"

fun str_nat :: "nat \<Rightarrow> string" where
  "str_nat n =
     (if n < 10 then [char_of (48 + n)]
      else str_nat (n div 10) @ [char_of (48 + n mod 10)])"

definition str_int :: "int \<Rightarrow> string" where
  \<comment> \<open>\<open>str(i)\<close> of a Python int, as an f-string prints it.\<close>
  "str_int i = (if i < 0 then ''-'' @ str_nat (nat (- i)) else str_nat (nat i))"

section \<open>The city catalog\<close>

record city_entry =
  city :: string
  state :: string
  country :: string
  search_string :: string

text \<open>
  The file \<open>cities_database.json\<close>: absent, present but not decodable, or holding
  a JSON array of city entries.
\<close>

datatype cities_file = Missing | Corrupt | Stored "city_entry list"

definition load_cities_database :: "cities_file \<Rightarrow> city_entry list" where
  "load_cities_database f = (case f of Stored db \<Rightarrow> db | Corrupt \<Rightarrow> [] | Missing \<Rightarrow> [])"

definition save_cities_database :: "city_entry list \<Rightarrow> cities_file" where
  "save_cities_database cities_db = Stored cities_db"

definition add_city_to_database :: "cities_file \<Rightarrow> string \<Rightarrow> string \<Rightarrow> string \<Rightarrow> cities_file" where
  "add_city_to_database f cty sta ctr =
     (let cities_db = load_cities_database f;
          entry = \<lparr>city = cty, state = sta, country = ctr,
                   search_string = lower (cty @ '', '' @ sta @ '', '' @ ctr)\<rparr>;
          exists = list_ex (\<lambda>c. lower (city c) = lower cty \<and>
                                 lower (state c) = lower sta \<and>
                                 lower (country c) = lower ctr) cities_db
      in if \<not> exists then save_cities_database (cities_db @ [entry]) else f)"

definition same_triple :: "string \<Rightarrow> string \<Rightarrow> string \<Rightarrow> city_entry \<Rightarrow> bool" where
  \<comment> \<open>Case-insensitive equality of the (city, state, country) triple.\<close>
  "same_triple cty sta ctr c \<longleftrightarrow>
     lower (city c) = lower cty \<and> lower (state c) = lower sta \<and> lower (country c) = lower ctr"

section \<open>The fuzzy matcher\<close>

text \<open>
  \<open>SequenceMatcher(None, a, b).ratio()\<close> belongs to Python's \<open>difflib\<close>, not to this
  program; it is the parameter \<open>ratio\<close> of the functions below. Scores are floats in
  the source and reals here.
\<close>

definition similarity_score :: "(string \<Rightarrow> string \<Rightarrow> real) \<Rightarrow> string \<Rightarrow> string \<Rightarrow> real" where
  "similarity_score ratio a b = ratio (lower a) (lower b)"

definition score :: "(string \<Rightarrow> string \<Rightarrow> real) \<Rightarrow> string \<Rightarrow> city_entry \<Rightarrow> real" where
  \<comment> \<open>The body of the scoring loop of \<open>find_best_matches\<close>.\<close>
  "score ratio query e =
     (let query_lower = lower query
      in if startswith (lower (city e)) query_lower
           then 1.0 + similarity_score ratio query (city e)
         else if contains query_lower (search_string e)
           then 0.8 + similarity_score ratio query (search_string e)
         else similarity_score ratio query (search_string e))"

definition slice_to :: "int \<Rightarrow> 'a list \<Rightarrow> 'a list" where
  \<comment> \<open>Python's \<open>xs[:limit]\<close>; a negative limit counts from the end.\<close>
  "slice_to limit xs =
     (if 0 \<le> limit then take (nat limit) xs
      else take (nat (int (length xs) + limit)) xs)"

definition scored_cities :: "(string \<Rightarrow> string \<Rightarrow> real) \<Rightarrow> string \<Rightarrow> city_entry list \<Rightarrow> (real \<times> city_entry) list" where
  "scored_cities ratio query cities_db = map (\<lambda>e. (score ratio query e, e)) cities_db"

definition find_best_matches :: "(string \<Rightarrow> string \<Rightarrow> real) \<Rightarrow> cities_file \<Rightarrow> string \<Rightarrow> int \<Rightarrow> city_entry list" where
  \<comment> \<open>\<open>list.sort(key, reverse=True)\<close> is stable: a stable ascending sort on the negated score.\<close>
  "find_best_matches ratio f query limit =
     (let cities_db = load_cities_database f
      in if cities_db = [] then []
         else map snd (filter (\<lambda>(s, c). s > 0.3)
                (slice_to limit (sort_key (\<lambda>x. - fst x) (scored_cities ratio query cities_db)))))"

definition ranked :: "(string \<Rightarrow> string \<Rightarrow> real) \<Rightarrow> string \<Rightarrow> int \<Rightarrow> city_entry list \<Rightarrow> (real \<times> city_entry) list" where
  \<comment> \<open>The scored pairs whose records \<open>find_best_matches\<close> returns.\<close>
  "ranked ratio query limit cities_db =
     filter (\<lambda>(s, c). s > 0.3)
       (slice_to limit (sort_key (\<lambda>x. - fst x) (scored_cities ratio query cities_db)))"

definition equal_ratio :: "string \<Rightarrow> string \<Rightarrow> real" where
  \<comment> \<open>A stand-in for \<open>ratio()\<close> in evaluated examples: 1 on equal strings, 0 otherwise.\<close>
  "equal_ratio a b = (if a = b then 1 else 0)"

definition springfield_il :: city_entry where
  "springfield_il = \<lparr>city = ''Springfield'', state = ''IL'', country = ''USA'',
     search_string = ''springfield, il, usa''\<rparr>"

definition springfield_mo :: city_entry where
  "springfield_mo = \<lparr>city = ''Springfield'', state = ''MO'', country = ''USA'',
     search_string = ''springfield, mo, usa''\<rparr>"

definition boston_ma :: city_entry where
  "boston_ma = \<lparr>city = ''Boston'', state = ''MA'', country = ''USA'',
     search_string = ''boston, ma, usa''\<rparr>"

section \<open>Daily AQI entries\<close>

text \<open>
  The payload of the remote API is modelled with the types its fields have when the API
  answers: timestamps are strings, AQI values are ints, and a key that may be missing or
  null is an option. Exceptions are values: \<open>HTTPError\<close> carries
  \<open>e.response.status_code\<close> and \<open>str(e)\<close>, the others their message. The calls of
  \<open>print\<close> are left out.
\<close>

record daily_entry =
  date :: string
  label :: string
  aqi :: "int option"

datatype exn =
    HTTPError int string
  | RequestException string
  | KeyError string
  | ZeroDivisionError
  | AttributeError string
  | OtherError string

record pollution =
  h_ts :: "string list option"
  h_aqius :: "int list option"

record history_data =
  h_pollution :: "pollution option"

record forecast_day =
  d_ts :: string
  d_aqius :: "int option"

record forecast_data =
  daily :: "forecast_day list option"

definition get_default :: "(string \<times> int) list \<Rightarrow> string \<Rightarrow> int \<Rightarrow> int" where
  \<comment> \<open>\<open>d.get(k, default)\<close>\<close>
  "get_default d k dflt = (case map_of d k of None \<Rightarrow> dflt | Some v \<Rightarrow> v)"

definition subscript :: "(string \<times> 'v) list \<Rightarrow> string \<Rightarrow> exn + 'v" where
  \<comment> \<open>\<open>d[k]\<close>\<close>
  "subscript d k = (case map_of d k of None \<Rightarrow> Inl (KeyError k) | Some v \<Rightarrow> Inr v)"

text \<open>
  \<open>round(sums[d] / counts[d])\<close>: the true division of two ints gives the double nearest
  to the exact quotient, a tie going to the even significand, and \<open>round\<close> takes that
  double to the nearest integer, a tie going to the even one. Doubles are the reals with a
  significand of 53 bits; their exponent range is not modelled, so a quotient of 2^1024 or
  more, on which the source raises OverflowError, is beyond this model.
\<close>

definition round_real :: "real \<Rightarrow> int" where
  \<comment> \<open>Python's \<open>round(x)\<close> of a float: the nearest integer, a tie going to the even one.\<close>
  "round_real x =
     (let f = \<lfloor>x\<rfloor>; d = x - of_int f
      in if d < 1 / 2 then f else if 1 / 2 < d then f + 1 else if even f then f else f + 1)"

definition pow2 :: "int \<Rightarrow> real" where
  "pow2 i = (if 0 \<le> i then 2 ^ nat i else 1 / 2 ^ nat (- i))"

definition floor_log2 :: "int \<Rightarrow> int \<Rightarrow> int" where
  \<comment> \<open>For positive \<open>a\<close> and \<open>b\<close>, the exponent \<open>e\<close> with \<open>2^e \<le> a / b < 2^(e + 1)\<close>.\<close>
  "floor_log2 a b =
     (let d = bitlen a - bitlen b
      in if pow2 d * of_int b \<le> of_int a then d else d - 1)"

definition double_quotient :: "int \<Rightarrow> int \<Rightarrow> real" where
  \<comment> \<open>The double nearest to \<open>a / b\<close>: the quotient rounded to a multiple of its unit in the
      last place, \<open>2^(e - 52)\<close>, a tie going to the even multiple.\<close>
  "double_quotient a b =
     (if a = 0 then 0
      else let ulp = pow2 (floor_log2 \<bar>a\<bar> \<bar>b\<bar> - 52)
           in of_int (round_real (of_int a / of_int b / ulp)) * ulp)"

definition true_div :: "int \<Rightarrow> int \<Rightarrow> exn + real" where
  \<comment> \<open>\<open>a / b\<close> of two ints.\<close>
  "true_div a b = (if b = 0 then Inl ZeroDivisionError else Inr (double_quotient a b))"

definition round_div :: "int \<Rightarrow> int \<Rightarrow> exn + int" where
  \<comment> \<open>\<open>round(a / b)\<close> of two ints.\<close>
  "round_div a b = (case true_div a b of Inl e \<Rightarrow> Inl e | Inr x \<Rightarrow> Inr (round_real x))"

definition round_half_even :: "int \<Rightarrow> int \<Rightarrow> int" where
  \<comment> \<open>For comparison: the exact quotient \<open>a / b\<close>, \<open>b > 0\<close>, rounded to the nearest integer,
      a tie going to the even one.\<close>
  "round_half_even a b =
     (let q = a div b; r = a mod b
      in if 2 * r < b then q
         else if b < 2 * r then q + 1
         else if even q then q else q + 1)"

definition accumulate :: "string \<times> int \<Rightarrow> (string \<times> int) list \<times> (string \<times> int) list
    \<Rightarrow> (string \<times> int) list \<times> (string \<times> int) list" where
  \<comment> \<open>One pass of the loop over \<open>zip(ts, aqius)\<close>; the state is
      \<open>(daily_aqi_sums, daily_aqi_counts)\<close>, dictionaries in insertion order.\<close>
  "accumulate p sc =
     (let d = date_part (fst p); aqi_sums = fst sc; aqi_counts = snd sc
      in (AList.update d (get_default aqi_sums d 0 + snd p) aqi_sums,
          AList.update d (get_default aqi_counts d 0 + 1) aqi_counts))"

fun averages :: "(string \<times> int) list \<Rightarrow> (string \<times> int) list \<Rightarrow> string list \<Rightarrow> exn + daily_entry list" where
  \<comment> \<open>The loop over the sorted dates, appending one entry per date.\<close>
  "averages aqi_sums aqi_counts [] = Inr []"
| "averages aqi_sums aqi_counts (d # ds) =
     (case subscript aqi_sums d of Inl e \<Rightarrow> Inl e | Inr s \<Rightarrow>
       (case subscript aqi_counts d of Inl e \<Rightarrow> Inl e | Inr n \<Rightarrow>
         (case round_div s n of Inl e \<Rightarrow> Inl e | Inr avg_aqi \<Rightarrow>
           (case averages aqi_sums aqi_counts ds of Inl e \<Rightarrow> Inl e | Inr rest \<Rightarrow>
              Inr (\<lparr>date = d, label = ''Avg. AQI ('' @ d @ '')'', aqi = Some avg_aqi\<rparr> # rest)))))"

definition calculate_daily_history_averages :: "history_data option \<Rightarrow> exn + daily_entry list" where
  "calculate_daily_history_averages history =
     (case history of None \<Rightarrow> Inr [] | Some h \<Rightarrow>
       (case h_pollution h of None \<Rightarrow> Inr [] | Some p \<Rightarrow>
         (case h_ts p of None \<Rightarrow> Inr [] | Some ts \<Rightarrow>
           (case h_aqius p of None \<Rightarrow> Inr [] | Some aqius \<Rightarrow>
              if aqius = [] then Inr []
              else let sc = fold accumulate (zip ts aqius) ([], [])
                   in averages (fst sc) (snd sc) (sort (map fst (fst sc)))))))"

definition readings :: "history_data option \<Rightarrow> (string \<times> int) list" where
  \<comment> \<open>The (timestamp, value) pairs the loop of \<open>calculate_daily_history_averages\<close> visits.\<close>
  "readings history =
     (case history of None \<Rightarrow> [] | Some h \<Rightarrow>
       (case h_pollution h of None \<Rightarrow> [] | Some p \<Rightarrow>
         (case h_ts p of None \<Rightarrow> [] | Some ts \<Rightarrow>
           (case h_aqius p of None \<Rightarrow> [] | Some aqius \<Rightarrow> zip ts aqius))))"

definition readings_on :: "string \<Rightarrow> (string \<times> int) list \<Rightarrow> int list" where
  \<comment> \<open>The values read on the date \<open>d\<close>.\<close>
  "readings_on d ps = map snd (filter (\<lambda>p. date_part (fst p) = d) ps)"

definition avg_entry :: "(string \<times> int) list \<Rightarrow> string \<Rightarrow> daily_entry" where
  "avg_entry ps d =
     \<lparr>date = d, label = ''Avg. AQI ('' @ d @ '')'',
      aqi = Some (round_real (double_quotient (sum_list (readings_on d ps))
                (int (length (readings_on d ps)))))\<rparr>"

definition calculate_daily_forecast_aqi :: "forecast_data option \<Rightarrow> daily_entry list" where
  "calculate_daily_forecast_aqi forecast =
     (case forecast of None \<Rightarrow> [] | Some fd \<Rightarrow>
       (case daily fd of None \<Rightarrow> [] | Some days \<Rightarrow>
          map (\<lambda>day_data. let d = date_part (d_ts day_data)
                 in \<lparr>date = d, label = ''Forecast AQI ('' @ d @ '')'', aqi = d_aqius day_data\<rparr>) days))"

definition add_history :: "daily_entry list \<Rightarrow> (string \<times> daily_entry) list \<Rightarrow> (string \<times> daily_entry) list" where
  \<comment> \<open>Step 4a: \<open>all_daily_aqi[item['date']] = item\<close> for each history entry.\<close>
  "add_history history_averages all_daily_aqi =
     fold (\<lambda>item m. AList.update (date item) item m) history_averages all_daily_aqi"

definition add_forecast :: "daily_entry list \<Rightarrow> (string \<times> daily_entry) list \<Rightarrow> (string \<times> daily_entry) list" where
  \<comment> \<open>Step 4b: only dates not yet in the dictionary.\<close>
  "add_forecast forecast_aqis all_daily_aqi =
     fold (\<lambda>item m. if map_of m (date item) = None then AList.update (date item) item m else m)
       forecast_aqis all_daily_aqi"

definition add_current :: "int option \<Rightarrow> string \<Rightarrow> (string \<times> daily_entry) list \<Rightarrow> (string \<times> daily_entry) list" where
  \<comment> \<open>Step 4c: the current reading overwrites the entry of the current UTC date.\<close>
  "add_current aqi_us current_date all_daily_aqi =
     (case aqi_us of None \<Rightarrow> all_daily_aqi
      | Some x \<Rightarrow> AList.update current_date
                   \<lparr>date = current_date, label = ''Current AQI'', aqi = Some x\<rparr> all_daily_aqi)"

definition combine_daily_aqi :: "daily_entry list \<Rightarrow> daily_entry list \<Rightarrow> int option \<Rightarrow> string \<Rightarrow> daily_entry list" where
  \<comment> \<open>Step 4 of \<open>get_air_quality_data\<close>: the dictionary \<open>all_daily_aqi\<close> keeps insertion
      order, and \<open>sorted\<close> is a stable sort on the date.\<close>
  "combine_daily_aqi history_averages forecast_aqis aqi_us current_date =
     sort_key date (map snd
       (add_current aqi_us current_date
         (add_forecast forecast_aqis (add_history history_averages []))))"

definition daily_summary :: "history_data option \<Rightarrow> forecast_data option \<Rightarrow> int option \<Rightarrow> string \<Rightarrow> exn + daily_entry list" where
  \<comment> \<open>Steps 2 to 4 of \<open>get_air_quality_data\<close> on the history, the forecast, the current
      reading and the UTC date the clock returns.\<close>
  "daily_summary history forecast aqi_us current_date =
     (case calculate_daily_history_averages history of Inl e \<Rightarrow> Inl e
      | Inr history_averages \<Rightarrow>
          Inr (combine_daily_aqi history_averages (calculate_daily_forecast_aqi forecast)
                 aqi_us current_date))"

text \<open>Notions used to state what the functions above compute.\<close>

definition history_of :: "string list \<Rightarrow> int list \<Rightarrow> history_data option" where
  \<comment> \<open>A history payload with both parallel arrays present.\<close>
  "history_of ts aqius = Some \<lparr>h_pollution = Some \<lparr>h_ts = Some ts, h_aqius = Some aqius\<rparr>\<rparr>"

definition history_dates :: "history_data option \<Rightarrow> string list" where
  \<comment> \<open>The dates that have a reading, each once, in ascending order.\<close>
  "history_dates hist = sort (remdups (map (\<lambda>p. date_part (fst p)) (readings hist)))"

definition forecast_days :: "forecast_data option \<Rightarrow> forecast_day list" where
  \<comment> \<open>The forecast days the loop of \<open>calculate_daily_forecast_aqi\<close> visits.\<close>
  "forecast_days fc =
     (case fc of None \<Rightarrow> [] | Some fd \<Rightarrow> (case daily fd of None \<Rightarrow> [] | Some days \<Rightarrow> days))"

definition forecast_entry :: "forecast_day \<Rightarrow> daily_entry" where
  "forecast_entry day_data =
     \<lparr>date = date_part (d_ts day_data),
      label = ''Forecast AQI ('' @ date_part (d_ts day_data) @ '')'',
      aqi = d_aqius day_data\<rparr>"

definition keyed :: "(string \<times> daily_entry) list \<Rightarrow> bool" where
  \<comment> \<open>The invariant of \<open>all_daily_aqi\<close>: keys are distinct and each entry sits under its date.\<close>
  "keyed m \<longleftrightarrow> distinct (map fst m) \<and> list_all (\<lambda>p. date (snd p) = fst p) m"

definition sample_history :: "history_data option" where
  "sample_history = history_of
     [''2024-01-02T10:00:00.000Z'', ''2024-01-01T11:00:00.000Z'', ''2024-01-02T12:00:00.000Z'']
     [10, 20, 13]"

definition sample_forecast :: "forecast_data option" where
  "sample_forecast = Some \<lparr>daily = Some
     [\<lparr>d_ts = ''2024-01-02T00:00:00.000Z'', d_aqius = Some 7\<rparr>,
      \<lparr>d_ts = ''2024-01-04T00:00:00.000Z'', d_aqius = Some 9\<rparr>]\<rparr>"

section \<open>The air-quality client\<close>

type_synonym weather = "(string \<times> string) list"

record current_pollution =
  c_aqius :: "int option"
  c_mainus :: "string option"

record current_data =
  c_pollution :: "current_pollution option"
  c_weather :: "weather option"

record city_data =
  current :: "current_data option"
  history :: "history_data option"
  forecast :: "forecast_data option"
  message :: "string option"

record payload =
  p_status :: "string option"
  p_data :: "city_data option"

text \<open>
  What \<open>requests.get\<close> hands back: an exception, or a response object with its status
  code, what \<open>raise_for_status()\<close> does (\<open>None\<close>: it returns) and what \<open>json()\<close>
  does (an exception, JSON \<open>null\<close>, or an object).
\<close>

record response =
  status_code :: int
  raise_for_status :: "exn option"
  json :: "exn + payload option"

datatype get_outcome = Raises exn | Returns response

datatype error_value = ErrText string | ErrData city_data

record air_quality =
  r_city :: string
  r_country :: string
  r_state :: string
  aqi_us :: "int option"
  main_pollutant :: "string option"
  r_weather :: weather
  daily_aqi_summary :: "daily_entry list"

datatype result = Success air_quality | Failure error_value

text \<open>
  The effects of a call: the requests sent and the sleeps taken, in order. The clock is
  read at most once in a call, on the success path; \<open>current_date\<close> is the UTC date it
  returns then.
\<close>

record world =
  requests_made :: nat
  sleeps :: "int list"

fun str_exn :: "exn \<Rightarrow> string" where
  "str_exn (HTTPError c m) = m"
| "str_exn (RequestException m) = m"
| "str_exn (KeyError k) = [CHR 39] @ k @ [CHR 39]"
| "str_exn ZeroDivisionError = ''division by zero''"
| "str_exn (AttributeError m) = m"
| "str_exn (OtherError m) = m"

definition none_has_no_get :: string where
  \<comment> \<open>The message of the AttributeError that \<open>data.get\<close> raises when \<open>data\<close> is \<open>None\<close>.\<close>
  "none_has_no_get = [CHR 39] @ ''NoneType'' @ [CHR 39] @ '' object has no attribute ''
     @ [CHR 39] @ ''get'' @ [CHR 39]"

definition success_result :: "string \<Rightarrow> string \<Rightarrow> string \<Rightarrow> string \<Rightarrow> city_data \<Rightarrow> exn + result" where
  \<comment> \<open>The branch \<open>data.get("status") == "success"\<close>.\<close>
  "success_result cty sta ctr current_date cd =
     (let cur = (case current cd of None \<Rightarrow> \<lparr>c_pollution = None, c_weather = None\<rparr> | Some c \<Rightarrow> c);
          cp = (case c_pollution cur of None \<Rightarrow> \<lparr>c_aqius = None, c_mainus = None\<rparr> | Some p \<Rightarrow> p);
          a = c_aqius cp;
          w = (case c_weather cur of None \<Rightarrow> [] | Some x \<Rightarrow> x)
      in case daily_summary (history cd) (forecast cd) a current_date of
           Inl e \<Rightarrow> Inl e
         | Inr sorted_daily_aqi \<Rightarrow>
             Inr (Success \<lparr>r_city = cty, r_country = ctr, r_state = sta, aqi_us = a,
                    main_pollutant = c_mainus cp, r_weather = w,
                    daily_aqi_summary = sorted_daily_aqi\<rparr>))"

definition try_body :: "string \<Rightarrow> string \<Rightarrow> string \<Rightarrow> string \<Rightarrow> get_outcome \<Rightarrow> exn + result option" where
  \<comment> \<open>The \<open>try\<close> block of one attempt: an exception, a returned result, or \<open>None\<close> for the
      \<open>elif response.status_code == 429\<close> branch (sleep, then \<open>continue\<close>).\<close>
  "try_body cty sta ctr current_date got =
     (case got of Raises e \<Rightarrow> Inl e | Returns r \<Rightarrow>
       (case raise_for_status r of Some e \<Rightarrow> Inl e | None \<Rightarrow>
         (case json r of Inl e \<Rightarrow> Inl e | Inr data \<Rightarrow>
            if (case data of None \<Rightarrow> False | Some d \<Rightarrow> p_status d = Some ''success'')
            then (case data of None \<Rightarrow> Inr None | Some d \<Rightarrow>
                   (case p_data d of None \<Rightarrow> Inl (KeyError ''data'') | Some cd \<Rightarrow>
                     (case success_result cty sta ctr current_date cd of
                        Inl e \<Rightarrow> Inl e | Inr res \<Rightarrow> Inr (Some res))))
            else if status_code r = 429 then Inr None
            else (case data of
                    None \<Rightarrow> Inl (AttributeError none_has_no_get)
                  | Some d \<Rightarrow>
                      Inr (Some (Failure (case p_data d of
                          Some x \<Rightarrow> ErrData x
                        | None \<Rightarrow> ErrText (''City data not available. Status: ''
                                    @ str_int (status_code r)))))))))"

definition request_sent :: "world \<Rightarrow> world" where
  "request_sent w = w\<lparr>requests_made := Suc (requests_made w)\<rparr>"

definition sleep :: "int \<Rightarrow> world \<Rightarrow> world" where
  "sleep d w = w\<lparr>sleeps := sleeps w @ [d]\<rparr>"

fun attempts :: "(nat \<Rightarrow> get_outcome) \<Rightarrow> string \<Rightarrow> string \<Rightarrow> string \<Rightarrow> string \<Rightarrow> int
    \<Rightarrow> nat \<Rightarrow> int \<Rightarrow> world \<Rightarrow> result \<times> world" where
  \<comment> \<open>The \<open>for attempt in range(max_retries)\<close> loop with the attempts left, the current
      \<open>initial_delay\<close> and the world; \<open>remote n\<close> is what the n-th request meets.\<close>
  "attempts remote cty sta ctr current_date max_retries 0 delay w =
     (Failure (ErrText (''Failed to retrieve data for '' @ cty @ '' after '' @ str_int max_retries
        @ '' attempts due to rate limiting.'')), w)"
| "attempts remote cty sta ctr current_date max_retries (Suc n) delay w =
     (let w1 = request_sent w
      in case try_body cty sta ctr current_date (remote (requests_made w)) of
           Inr (Some res) \<Rightarrow> (res, w1)
         | Inr None \<Rightarrow>
             attempts remote cty sta ctr current_date max_retries n (delay * 2) (sleep delay w1)
         | Inl (HTTPError c m) \<Rightarrow>
             if c = 429
             then attempts remote cty sta ctr current_date max_retries n (delay * 2) (sleep delay w1)
             else (Failure (ErrText (''API HTTP Error: '' @ m)), w1)
         | Inl (RequestException m) \<Rightarrow> (Failure (ErrText (''API Request Error: '' @ m)), w1)
         | Inl e \<Rightarrow> (Failure (ErrText (''An unexpected error occurred: '' @ str_exn e)), w1))"

definition get_air_quality_data :: "(nat \<Rightarrow> get_outcome) \<Rightarrow> string \<Rightarrow> string \<Rightarrow> string \<Rightarrow> string
    \<Rightarrow> int \<Rightarrow> int \<Rightarrow> world \<Rightarrow> result \<times> world" where
  "get_air_quality_data remote current_date cty sta ctr max_retries initial_delay w =
     attempts remote cty sta ctr current_date max_retries (nat max_retries) initial_delay w"

text \<open>Notions used to state what the client does with what the remote sends.\<close>

definition raised :: "get_outcome \<Rightarrow> exn option" where
  \<comment> \<open>The exception that \<open>requests.get\<close>, \<open>raise_for_status()\<close> or \<open>json()\<close> raises,
      whichever comes first.\<close>
  "raised got =
     (case got of Raises e \<Rightarrow> Some e | Returns r \<Rightarrow>
       (case raise_for_status r of Some e \<Rightarrow> Some e | None \<Rightarrow>
         (case json r of Inl e \<Rightarrow> Some e | Inr data \<Rightarrow> None)))"

definition decoded :: "get_outcome \<Rightarrow> (int \<times> payload option) option" where
  \<comment> \<open>The status code and the decoded body of a response that raised nothing.\<close>
  "decoded got =
     (case got of Raises e \<Rightarrow> None | Returns r \<Rightarrow>
       (case raise_for_status r of Some e \<Rightarrow> None | None \<Rightarrow>
         (case json r of Inl e \<Rightarrow> None | Inr data \<Rightarrow> Some (status_code r, data))))"

definition says_success :: "payload option \<Rightarrow> bool" where
  "says_success data = (case data of None \<Rightarrow> False | Some d \<Rightarrow> p_status d = Some ''success'')"

definition rate_limited :: "get_outcome \<Rightarrow> bool" where
  \<comment> \<open>A 429: raised as an HTTP error, or the status code of a response that raised nothing
      and whose body does not say success.\<close>
  "rate_limited got =
     (case raised got of
        Some (HTTPError c m) \<Rightarrow> c = 429
      | Some e \<Rightarrow> False
      | None \<Rightarrow> (case decoded got of None \<Rightarrow> False
          | Some (code, data) \<Rightarrow> code = 429 \<and> \<not> says_success data))"

definition success_payload :: "get_outcome \<Rightarrow> city_data option" where
  \<comment> \<open>The city data of a response that raised nothing and says success.\<close>
  "success_payload got =
     (case decoded got of None \<Rightarrow> None
      | Some (code, data) \<Rightarrow>
          (case data of None \<Rightarrow> None
           | Some d \<Rightarrow> if p_status d = Some ''success'' then p_data d else None))"

definition backoff :: "int \<Rightarrow> nat \<Rightarrow> int list" where
  \<comment> \<open>The first \<open>j\<close> delays: the initial one, doubled each time.\<close>
  "backoff delay j = map (\<lambda>i. delay * 2 ^ i) [0..<j]"

definition after :: "nat \<Rightarrow> int list \<Rightarrow> world \<Rightarrow> world" where
  \<comment> \<open>The world after \<open>j\<close> more requests and the sleeps \<open>ds\<close>.\<close>
  "after j ds w = w\<lparr>requests_made := requests_made w + j, sleeps := sleeps w @ ds\<rparr>"

definition failure_value :: "get_outcome \<Rightarrow> error_value" where
  \<comment> \<open>The error the handlers build for an attempt that neither succeeds nor is a 429.\<close>
  "failure_value got =
     (case raised got of
        Some (HTTPError c m) \<Rightarrow> ErrText (''API HTTP Error: '' @ m)
      | Some (RequestException m) \<Rightarrow> ErrText (''API Request Error: '' @ m)
      | Some e \<Rightarrow> ErrText (''An unexpected error occurred: '' @ str_exn e)
      | None \<Rightarrow>
         (case decoded got of
            None \<Rightarrow> ErrText []
          | Some (code, None) \<Rightarrow>
              ErrText (''An unexpected error occurred: '' @ str_exn (AttributeError none_has_no_get))
          | Some (code, Some d) \<Rightarrow>
              if p_status d = Some ''success''
              then ErrText (''An unexpected error occurred: '' @ str_exn (KeyError ''data''))
              else (case p_data d of
                      Some x \<Rightarrow> ErrData x
                    | None \<Rightarrow> ErrText (''City data not available. Status: '' @ str_int code))))"

text \<open>Sample remotes: a script of outcomes, then refused connections.\<close>

definition remote_of :: "get_outcome list \<Rightarrow> nat \<Rightarrow> get_outcome" where
  "remote_of script n =
     (if n < length script then script ! n else Raises (RequestException ''Connection refused''))"

definition too_many_raised :: get_outcome where
  "too_many_raised = Returns \<lparr>status_code = 429,
     raise_for_status = Some (HTTPError 429 ''429 Client Error: Too Many Requests''),
     json = Inr None\<rparr>"

definition too_many_returned :: get_outcome where
  "too_many_returned = Returns \<lparr>status_code = 429, raise_for_status = None,
     json = Inr (Some \<lparr>p_status = Some ''fail'', p_data = None\<rparr>)\<rparr>"

definition sample_city :: city_data where
  "sample_city = \<lparr>
     current = Some \<lparr>c_pollution = Some \<lparr>c_aqius = Some 42, c_mainus = Some ''p2''\<rparr>,
                     c_weather = None\<rparr>,
     history = sample_history,
     forecast = sample_forecast,
     message = None\<rparr>"

definition ok_response :: get_outcome where
  "ok_response = Returns \<lparr>status_code = 200, raise_for_status = None,
     json = Inr (Some \<lparr>p_status = Some ''success'', p_data = Some sample_city\<rparr>)\<rparr>"

definition city_not_found :: city_data where
  "city_not_found = \<lparr>current = None, history = None, forecast = None,
     message = Some ''city_not_found''\<rparr>"

definition fail_response :: get_outcome where
  "fail_response = Returns \<lparr>status_code = 200, raise_for_status = None,
     json = Inr (Some \<lparr>p_status = Some ''fail'', p_data = Some city_not_found\<rparr>)\<rparr>"

definition sample_result :: air_quality where
  \<comment> \<open>What the client returns for \<open>sample_city\<close> on 2024-01-03.\<close>
  "sample_result = \<lparr>r_city = ''Springfield'', r_country = ''USA'', r_state = ''IL'',
      aqi_us = Some 42, main_pollutant = Some ''p2'', r_weather = [],
      daily_aqi_summary =
        [\<lparr>date = ''2024-01-01'', label = ''Avg. AQI (2024-01-01)'', aqi = Some 20\<rparr>,
         \<lparr>date = ''2024-01-02'', label = ''Avg. AQI (2024-01-02)'', aqi = Some 12\<rparr>,
         \<lparr>date = ''2024-01-03'', label = ''Current AQI'', aqi = Some 42\<rparr>,
         \<lparr>date = ''2024-01-04'', label = ''Forecast AQI (2024-01-04)'', aqi = Some 9\<rparr>]\<rparr>"

definition start :: world where
  "start = \<lparr>requests_made = 0, sleeps = []\<rparr>"

section \<open>Properties of the strings\<close>

lemma lower_char_idem: "lower_char (lower_char c) = lower_char c"
proof -
  have b: "(of_char c :: nat) < 256" by simp
  show ?thesis
    using b by (auto simp: lower_char_def Let_def)
qed

lemma lower_idem: "lower (lower s) = lower s"
  by (simp add: lower_def lower_char_idem)

lemma startswith_iff: "startswith s p \<longleftrightarrow> (\<exists>r. s = p @ r)"
  by (induction s p rule: startswith.induct) auto

lemma contains_iff: "contains p s \<longleftrightarrow> (\<exists>a b. s = a @ p @ b)"
proof (induction s)
  case Nil
  then show ?case by auto
next
  case (Cons c s)
  show ?case
  proof
    assume "contains p (c # s)"
    then consider "startswith (c # s) p" | "contains p s" by auto
    then show "\<exists>a b. c # s = a @ p @ b"
    proof cases
      case 1
      then obtain r where "c # s = p @ r" by (auto simp: startswith_iff)
      then have "c # s = [] @ p @ r" by simp
      then show ?thesis by blast
    next
      case 2
      then obtain a b where "s = a @ p @ b" using Cons.IH by blast
      then have "c # s = (c # a) @ p @ b" by simp
      then show ?thesis by blast
    qed
  next
    assume "\<exists>a b. c # s = a @ p @ b"
    then obtain a b where ab: "c # s = a @ p @ b" by blast
    show "contains p (c # s)"
    proof (cases a)
      case Nil
      with ab have "startswith (c # s) p" by (auto simp: startswith_iff)
      then show ?thesis by simp
    next
      case (Cons x a')
      with ab have "s = a' @ p @ b" by simp
      then have "contains p s" using Cons.IH by blast
      then show ?thesis by simp
    qed
  qed
qed

section \<open>Properties of the catalog\<close>

lemma list_ex_filter: "list_ex P xs \<longleftrightarrow> filter P xs \<noteq> []"
  by (induction xs) auto

lemma exists_same_triple:
  "list_ex (\<lambda>c. lower (city c) = lower cty \<and> lower (state c) = lower sta
      \<and> lower (country c) = lower ctr) db
     = list_ex (same_triple cty sta ctr) db"
  by (induction db) (auto simp: same_triple_def)

text \<open>
  Both writers of the catalog store the search string in lower case, so every entry
  that \<open>add_city_to_database\<close> appends equals its own lower-casing.
\<close>

lemma add_city_to_database_lowercase:
  assumes "\<forall>c \<in> set (load_cities_database f). search_string c = lower (search_string c)"
  shows "\<forall>c \<in> set (load_cities_database (add_city_to_database f cty sta ctr)).
           search_string c = lower (search_string c)"
  using assms
  by (auto simp: add_city_to_database_def Let_def save_cities_database_def
      load_cities_database_def lower_idem split: cities_file.splits)

text \<open>
  C8. Adding the same (city, state, country) triple twice: the second call changes
  nothing; the catalog then holds exactly one record matching the triple
  case-insensitively when it held none or one before (in general \<open>max 1 n\<close> for \<open>n\<close>
  matching records before); the first call appends the new record and saves when no
  record matched, and leaves the file alone otherwise.
\<close>

theorem add_city_to_database_twice:
  "(let f1 = add_city_to_database f cty sta ctr;
        f2 = add_city_to_database f1 cty sta ctr;
        n = length (filter (same_triple cty sta ctr) (load_cities_database f))
    in f2 = f1
     \<and> length (filter (same_triple cty sta ctr) (load_cities_database f2)) = max 1 n
     \<and> (n = 0 \<longrightarrow> f1 = Stored (load_cities_database f @
            [\<lparr>city = cty, state = sta, country = ctr,
              search_string = lower (cty @ '', '' @ sta @ '', '' @ ctr)\<rparr>]))
     \<and> (n \<noteq> 0 \<longrightarrow> f1 = f))"
proof -
  let ?P = "same_triple cty sta ctr"
  let ?e = "\<lparr>city = cty, state = sta, country = ctr,
              search_string = lower (cty @ '', '' @ sta @ '', '' @ ctr)\<rparr>"
  have e: "?P ?e" by (simp add: same_triple_def)
  show ?thesis
  proof (cases "filter ?P (load_cities_database f) = []")
    case True
    then have f1: "add_city_to_database f cty sta ctr = Stored (load_cities_database f @ [?e])"
      by (simp add: add_city_to_database_def exists_same_triple list_ex_filter
          save_cities_database_def Let_def)
    have "filter ?P (load_cities_database f @ [?e]) = [?e]"
      using True e by simp
    then have f2: "add_city_to_database (Stored (load_cities_database f @ [?e])) cty sta ctr
        = Stored (load_cities_database f @ [?e])"
      by (simp add: add_city_to_database_def exists_same_triple list_ex_filter
          load_cities_database_def Let_def del: filter_append)
    have l2: "load_cities_database (Stored (load_cities_database f @ [?e]))
        = load_cities_database f @ [?e]"
      by (simp add: load_cities_database_def)
    show ?thesis
      unfolding Let_def f1 f2 l2 using True e by simp
  next
    case False
    then have f1: "add_city_to_database f cty sta ctr = f"
      by (simp add: add_city_to_database_def exists_same_triple list_ex_filter Let_def)
    have "1 \<le> length (filter ?P (load_cities_database f))"
      using False by (cases "filter ?P (load_cities_database f)") auto
    then show ?thesis
      using False by (simp add: Let_def f1 max_def)
  qed
qed

theorem add_city_to_database_twice_witness:
  "length (filter (same_triple ''Boston'' ''MA'' ''USA'') (load_cities_database (Stored [springfield_il]))) = 0
   \<and> add_city_to_database (Stored [springfield_il]) ''Boston'' ''MA'' ''USA''
       = Stored [springfield_il, boston_ma]
   \<and> length (filter (same_triple ''Boston'' ''MA'' ''USA'') (load_cities_database (Stored [springfield_il, boston_ma]))) \<noteq> 0
   \<and> add_city_to_database (Stored [springfield_il, boston_ma]) ''BOSTON'' ''ma'' ''Usa''
       = Stored [springfield_il, boston_ma]"
proof -
  have n0: "length (filter (same_triple ''Boston'' ''MA'' ''USA'')
      (load_cities_database (Stored [springfield_il]))) = 0"
    by code_simp
  have b: "\<lparr>city = ''Boston'', state = ''MA'', country = ''USA'',
      search_string = lower (''Boston'' @ '', '' @ ''MA'' @ '', '' @ ''USA'')\<rparr> = boston_ma"
    by code_simp
  have l: "load_cities_database (Stored [springfield_il]) = [springfield_il]"
    by (simp add: load_cities_database_def)
  have n1: "length (filter (same_triple ''BOSTON'' ''ma'' ''Usa'')
      (load_cities_database (Stored [springfield_il, boston_ma]))) \<noteq> 0"
    by code_simp
  have n1': "length (filter (same_triple ''Boston'' ''MA'' ''USA'')
      (load_cities_database (Stored [springfield_il, boston_ma]))) \<noteq> 0"
    by code_simp
  from add_city_to_database_twice [of "Stored [springfield_il]" "''Boston''" "''MA''" "''USA''"] n0
  have a1: "add_city_to_database (Stored [springfield_il]) ''Boston'' ''MA'' ''USA''
      = Stored [springfield_il, boston_ma]"
    unfolding Let_def b l by simp
  from add_city_to_database_twice [of "Stored [springfield_il, boston_ma]" "''BOSTON''" "''ma''" "''Usa''"] n1
  have a2: "add_city_to_database (Stored [springfield_il, boston_ma]) ''BOSTON'' ''ma'' ''Usa''
      = Stored [springfield_il, boston_ma]"
    unfolding Let_def by blast
  from n0 a1 n1' a2 show ?thesis by blast
qed

section \<open>Properties of the matcher\<close>

text \<open>
  C4. For a catalog entry whose search string is stored in lower case, as the catalog's
  writers store it: the score is 1.0 plus the similarity of query and city when the
  lower-cased city starts with the lower-cased query; otherwise 0.8 plus the similarity of
  query and search string when the lower-cased query occurs in the search string; otherwise
  the similarity of query and search string. The similarity is the ratio of the two
  lower-cased strings.
\<close>

theorem score_by_cases:
  assumes "search_string e = lower (search_string e)"
  shows "score ratio query e =
     (if (\<exists>r. lower (city e) = lower query @ r)
        then 1.0 + similarity_score ratio query (city e)
      else if (\<exists>a b. lower (search_string e) = a @ lower query @ b)
        then 0.8 + similarity_score ratio query (search_string e)
      else similarity_score ratio query (search_string e))
     \<and> similarity_score ratio query (city e) = ratio (lower query) (lower (city e))
     \<and> similarity_score ratio query (search_string e)
         = ratio (lower query) (lower (search_string e))"
  using assms
  by (simp add: score_def Let_def similarity_score_def startswith_iff contains_iff)

theorem score_by_cases_witness:
  "search_string springfield_il = lower (search_string springfield_il)
   \<and> score equal_ratio ''SPRING'' springfield_il = 1.0 + equal_ratio ''spring'' ''springfield''
   \<and> score equal_ratio ''Il, U'' springfield_il = 0.8 + equal_ratio ''il, u'' ''springfield, il, usa''
   \<and> score equal_ratio ''Boston'' springfield_il = equal_ratio ''boston'' ''springfield, il, usa''"
proof -
  have h: "search_string springfield_il = lower (search_string springfield_il)"
    by code_simp
  have l1: "lower ''SPRING'' = ''spring''" "lower ''Il, U'' = ''il, u''"
    "lower ''Boston'' = ''boston''" "lower (city springfield_il) = ''springfield''"
    "lower (search_string springfield_il) = ''springfield, il, usa''"
    by code_simp+
  have p1: "\<exists>r. ''springfield'' = ''spring'' @ r" by simp
  have p2: "\<not> (\<exists>r. ''springfield'' = ''il, u'' @ r)" by simp
  have p3: "\<exists>a b. ''springfield, il, usa'' = a @ ''il, u'' @ b"
  proof -
    have "''springfield, il, usa'' = ''springfield, '' @ ''il, u'' @ ''sa''" by simp
    then show ?thesis by blast
  qed
  have p4: "\<not> (\<exists>r. ''springfield'' = ''boston'' @ r)" by simp
  have p5: "\<not> contains ''boston'' ''springfield, il, usa''" by code_simp
  have p5': "\<not> (\<exists>a b. ''springfield, il, usa'' = a @ ''boston'' @ b)"
    using p5 unfolding contains_iff .
  from score_by_cases [OF h, of equal_ratio "''SPRING''"] p1
  have s1: "score equal_ratio ''SPRING'' springfield_il = 1.0 + equal_ratio ''spring'' ''springfield''"
    unfolding l1 by presburger
  from score_by_cases [OF h, of equal_ratio "''Il, U''"] p2 p3
  have s2: "score equal_ratio ''Il, U'' springfield_il = 0.8 + equal_ratio ''il, u'' ''springfield, il, usa''"
    unfolding l1 by presburger
  from score_by_cases [OF h, of equal_ratio "''Boston''"] p4 p5'
  have s3: "score equal_ratio ''Boston'' springfield_il = equal_ratio ''boston'' ''springfield, il, usa''"
    unfolding l1 by presburger
  from h s1 s2 s3 show ?thesis by blast
qed

lemma slice_to_take: "\<exists>m. slice_to limit xs = take m xs"
  by (auto simp: slice_to_def)

lemma length_slice_to: "0 \<le> limit \<Longrightarrow> int (length (slice_to limit xs)) \<le> limit"
  by (simp add: slice_to_def)

lemma scored_fst:
  "p \<in> set (scored_cities ratio query db) \<Longrightarrow> fst p = score ratio query (snd p)"
  by (auto simp: scored_cities_def)

lemma find_best_matches_ranked:
  "find_best_matches ratio f query limit
     = map snd (ranked ratio query limit (load_cities_database f))"
  by (simp add: find_best_matches_def ranked_def Let_def scored_cities_def slice_to_def)

lemma ranked_subset: "set (ranked ratio query limit db) \<subseteq> set (scored_cities ratio query db)"
proof -
  obtain m where "slice_to limit (sort_key (\<lambda>x. - fst x) (scored_cities ratio query db))
      = take m (sort_key (\<lambda>x. - fst x) (scored_cities ratio query db))"
    using slice_to_take by blast
  then show ?thesis
    unfolding ranked_def by (auto dest: in_set_takeD)
qed

lemma ranked_fst:
  "p \<in> set (ranked ratio query limit db) \<Longrightarrow> fst p = score ratio query (snd p)"
  using ranked_subset scored_fst by blast

lemma ranked_length: "0 \<le> limit \<Longrightarrow> int (length (ranked ratio query limit db)) \<le> limit"
proof -
  assume l: "0 \<le> limit"
  have "length (ranked ratio query limit db)
      \<le> length (slice_to limit (sort_key (\<lambda>x. - fst x) (scored_cities ratio query db)))"
    unfolding ranked_def by (rule length_filter_le)
  with length_slice_to[OF l, of "sort_key (\<lambda>x. - fst x) (scored_cities ratio query db)"]
  show ?thesis by linarith
qed

lemma ranked_above: "p \<in> set (ranked ratio query limit db) \<Longrightarrow> fst p > 0.3"
  by (auto simp: ranked_def)

lemma ranked_sorted: "sorted_wrt (\<lambda>p q. fst p \<ge> fst q) (ranked ratio query limit db)"
proof -
  let ?S = "sort_key (\<lambda>x. - fst x) (scored_cities ratio query db)"
  have "sorted (map (\<lambda>x. - fst x) ?S)" by (rule sorted_sort_key)
  then have s: "sorted_wrt (\<lambda>p q. fst p \<ge> fst q) ?S"
    by (simp add: sorted_map)
  obtain m where m: "slice_to limit ?S = take m ?S" using slice_to_take by blast
  show ?thesis
    unfolding ranked_def m by (intro sorted_wrt_filter sorted_wrt_take s)
qed

text \<open>The sort is stable and the slice is a prefix: among equal scores, catalog order.\<close>

lemma ranked_stable:
  "prefix (filter (\<lambda>p. fst p = k) (ranked ratio query limit db))
          (filter (\<lambda>p. fst p = k) (scored_cities ratio query db))"
proof -
  let ?X = "scored_cities ratio query db"
  let ?S = "sort_key (\<lambda>x. - fst x) ?X"
  obtain m where m: "slice_to limit ?S = take m ?S" using slice_to_take by blast
  have "filter (\<lambda>p. - fst p = - k) ?S = filter (\<lambda>p. - fst p = - k) ?X"
    by (rule sort_key_stable)
  then have st: "filter (\<lambda>p. fst p = k) ?S = filter (\<lambda>p. fst p = k) ?X" by simp
  have a: "prefix (filter (\<lambda>p. fst p = k) (take m ?S)) (filter (\<lambda>p. fst p = k) ?S)"
    by (intro filter_mono_prefix take_is_prefix)
  have "filter (\<lambda>p. fst p = k) (ranked ratio query limit db)
      = (if k > 0.3 then filter (\<lambda>p. fst p = k) (take m ?S) else [])"
    unfolding ranked_def m filter_filter
    by (auto intro: filter_cong simp: filter_empty_conv)
  then show ?thesis using a st by auto
qed

lemma filter_map_snd_score:
  assumes "\<And>p. p \<in> set ps \<Longrightarrow> fst p = g (snd p)"
  shows "filter (\<lambda>e. g e = k) (map snd ps) = map snd (filter (\<lambda>p. fst p = k) ps)"
  using assms by (induction ps) auto

text \<open>
  C5. For every query and every limit that is not negative, as the limit the caller passes
  is, \<open>find_best_matches\<close> returns at most \<open>limit\<close> records. The returned records are in
  descending order of score; the returned records of any one score are the first ones of
  that score in the catalog, in catalog order; every returned record scores above 0.3;
  and when every catalog entry scores at most 0.3 the result is empty.
\<close>

theorem find_best_matches_ranking:
  "(0 \<le> limit \<longrightarrow> int (length (find_best_matches ratio f query limit)) \<le> limit)
   \<and> sorted_wrt (\<lambda>a b. score ratio query a \<ge> score ratio query b)
        (find_best_matches ratio f query limit)
   \<and> (\<forall>k. prefix (filter (\<lambda>e. score ratio query e = k) (find_best_matches ratio f query limit))
                 (filter (\<lambda>e. score ratio query e = k) (load_cities_database f)))
   \<and> (\<forall>e \<in> set (find_best_matches ratio f query limit). score ratio query e > 0.3)
   \<and> ((\<forall>e \<in> set (load_cities_database f). score ratio query e \<le> 0.3)
        \<longrightarrow> find_best_matches ratio f query limit = [])"
proof -
  let ?db = "load_cities_database f"
  let ?R = "ranked ratio query limit ?db"
  let ?g = "score ratio query"
  note fb = find_best_matches_ranked[of ratio f query limit]
  have fst_R: "\<And>p. p \<in> set ?R \<Longrightarrow> fst p = ?g (snd p)" by (rule ranked_fst)
  have c1: "0 \<le> limit \<longrightarrow> int (length (find_best_matches ratio f query limit)) \<le> limit"
    using ranked_length[of limit ratio query ?db] by (simp add: fb)
  have "sorted_wrt (\<lambda>p q. ?g (snd p) \<ge> ?g (snd q)) ?R"
    using ranked_sorted[of ratio query limit ?db] fst_R
    by (auto elim!: sorted_wrt_mono_rel[rotated])
  then have c2: "sorted_wrt (\<lambda>a b. ?g a \<ge> ?g b) (find_best_matches ratio f query limit)"
    by (simp add: fb sorted_wrt_map)
  have c3: "prefix (filter (\<lambda>e. ?g e = k) (find_best_matches ratio f query limit))
                 (filter (\<lambda>e. ?g e = k) ?db)" for k
  proof -
    have l: "filter (\<lambda>e. ?g e = k) (map snd ?R) = map snd (filter (\<lambda>p. fst p = k) ?R)"
      by (rule filter_map_snd_score) (rule fst_R)
    have r: "filter (\<lambda>e. ?g e = k) (map snd (scored_cities ratio query ?db))
        = map snd (filter (\<lambda>p. fst p = k) (scored_cities ratio query ?db))"
      by (rule filter_map_snd_score) (rule scored_fst)
    have d: "map snd (scored_cities ratio query ?db) = ?db"
      by (simp add: scored_cities_def comp_def)
    show ?thesis
      using map_mono_prefix[OF ranked_stable[of k ratio query limit ?db], of snd]
      unfolding fb l by (simp add: r[unfolded d])
  qed
  have c4: "\<forall>e \<in> set (find_best_matches ratio f query limit). ?g e > 0.3"
    unfolding fb using ranked_above[of _ ratio query limit ?db] fst_R by fastforce
  have c5: "(\<forall>e \<in> set ?db. ?g e \<le> 0.3) \<longrightarrow> find_best_matches ratio f query limit = []"
  proof
    assume low: "\<forall>e \<in> set ?db. ?g e \<le> 0.3"
    have "?R = []"
    proof (rule ccontr)
      assume "?R \<noteq> []"
      then obtain p where p: "p \<in> set ?R" by (cases ?R) auto
      then have "p \<in> set (scored_cities ratio query ?db)" using ranked_subset by blast
      then have "snd p \<in> set ?db" by (auto simp: scored_cities_def)
      with low have "?g (snd p) \<le> 0.3" by blast
      with ranked_above[OF p] fst_R[OF p] show False by simp
    qed
    then show "find_best_matches ratio f query limit = []" by (simp add: fb)
  qed
  from c1 c2 c3 c4 c5 show ?thesis by blast
qed

theorem find_best_matches_ranking_witness:
  "(0::int) \<le> 1
   \<and> int (length (find_best_matches equal_ratio
        (Stored [springfield_il, boston_ma, springfield_mo]) ''spring'' 1)) \<le> 1
   \<and> find_best_matches equal_ratio
        (Stored [springfield_il, boston_ma, springfield_mo]) ''spring'' 1 = [springfield_il]
   \<and> score equal_ratio ''spring'' springfield_il > 0.3
   \<and> score equal_ratio ''zzz'' boston_ma \<le> 0.3
   \<and> find_best_matches equal_ratio (Stored [boston_ma]) ''zzz'' 5 = []"
proof -
  let ?f = "Stored [springfield_il, boston_ma, springfield_mo]"
  have r: "find_best_matches equal_ratio ?f ''spring'' 1 = [springfield_il]"
    by code_simp
  have low: "score equal_ratio ''zzz'' boston_ma \<le> 0.3"
    by code_simp
  then have all_low: "\<forall>e \<in> set (load_cities_database (Stored [boston_ma])).
      score equal_ratio ''zzz'' e \<le> 0.3"
    by (simp add: load_cities_database_def)
  from find_best_matches_ranking [of 1 equal_ratio ?f "''spring''"]
  have len: "int (length (find_best_matches equal_ratio ?f ''spring'' 1)) \<le> 1"
    and above: "\<forall>e \<in> set (find_best_matches equal_ratio ?f ''spring'' 1).
      score equal_ratio ''spring'' e > 0.3"
    by simp_all
  from above have hi: "score equal_ratio ''spring'' springfield_il > 0.3"
    unfolding r by simp
  from find_best_matches_ranking [of 5 equal_ratio "Stored [boston_ma]" "''zzz''"] all_low
  have e: "find_best_matches equal_ratio (Stored [boston_ma]) ''zzz'' 5 = []"
    by blast
  from len r hi low e show ?thesis by simp
qed

section \<open>Properties of the daily history averages\<close>

lemma round_half_even_nearest:
  assumes "0 < b"
  shows "\<bar>real_of_int (round_half_even a b) - real_of_int a / real_of_int b\<bar> \<le> 1 / 2
    \<and> (\<bar>real_of_int (round_half_even a b) - real_of_int a / real_of_int b\<bar> = 1 / 2
         \<longrightarrow> even (round_half_even a b))"
proof -
  define q where "q = a div b"
  define r where "r = a mod b"
  define x where "x = real_of_int r / real_of_int b"
  have a: "a = b * q + r" by (simp add: q_def r_def)
  have r: "0 \<le> r" "r < b" using assms by (simp_all add: r_def)
  have bpos: "0 < real_of_int b" using assms by simp
  have quot: "real_of_int a / real_of_int b = real_of_int q + x"
    using bpos by (simp add: a x_def field_simps)
  have v: "round_half_even a b = (if 2 * r < b then q else if b < 2 * r then q + 1
      else if even q then q else q + 1)"
    by (simp add: round_half_even_def Let_def q_def r_def)
  have x0: "0 \<le> x" "x < 1" using r bpos by (simp_all add: x_def)
  consider "2 * r < b" | "b < 2 * r" | "2 * r = b" by linarith
  then show ?thesis
  proof cases
    case 1
    then have "2 * real_of_int r < real_of_int b" by linarith
    then have "x < 1 / 2"
      using bpos by (simp add: x_def field_simps)
    moreover have "round_half_even a b = q" using 1 by (simp add: v)
    ultimately show ?thesis using x0 unfolding quot by simp
  next
    case 2
    then have "real_of_int b < 2 * real_of_int r" by linarith
    then have "1 / 2 < x"
      using bpos by (simp add: x_def field_simps)
    moreover have "round_half_even a b = q + 1" using 2 by (simp add: v)
    ultimately show ?thesis using x0 unfolding quot by simp
  next
    case 3
    then have "2 * real_of_int r = real_of_int b" by linarith
    then have h: "x = 1 / 2"
      using bpos by (simp add: x_def field_simps)
    have e: "even (round_half_even a b)" using 3 by (simp add: v)
    have "round_half_even a b = q \<or> round_half_even a b = q + 1" by (auto simp: v)
    then have "\<bar>real_of_int (round_half_even a b) - (real_of_int q + x)\<bar> = 1 / 2"
      unfolding h by auto
    then show ?thesis using e unfolding quot by simp
  qed
qed

text \<open>
  A real \<open>x\<close> within a relative error of \<open>2 ^ -53\<close> of the exact quotient, and equal to
  it when that is an integer plus one half, rounds to what \<open>round_half_even\<close> gives while
  the numerator is below \<open>2 ^ 52\<close> in absolute value.
\<close>

lemma round_real_near:
  assumes "\<bar>x - of_int k\<bar> < 1 / 2"
  shows "round_real x = k"
proof (cases "of_int k \<le> x")
  case True
  then have f: "\<lfloor>x\<rfloor> = k" using assms by (intro floor_unique) auto
  show ?thesis using assms True by (simp add: round_real_def f Let_def)
next
  case False
  then have f: "\<lfloor>x\<rfloor> = k - 1" using assms by (intro floor_unique) auto
  show ?thesis using assms False by (simp add: round_real_def f Let_def)
qed

lemma round_real_quotient:
  assumes "0 < b"
  shows "round_real (of_int a / of_int b) = round_half_even a b"
proof -
  define q where "q = a div b"
  define r where "r = a mod b"
  define x where "x = real_of_int r / real_of_int b"
  have a: "a = b * q + r" by (simp add: q_def r_def)
  have r: "0 \<le> r" "r < b" using assms by (simp_all add: r_def)
  have bpos: "0 < real_of_int b" using assms by simp
  have quot: "real_of_int a / real_of_int b = real_of_int q + x"
    using bpos by (simp add: a x_def field_simps)
  have x0: "0 \<le> x" "x < 1" using r bpos by (simp_all add: x_def)
  have fl: "\<lfloor>real_of_int q + x\<rfloor> = q" using x0 by (intro floor_unique) auto
  have c1: "x < 1 / 2 \<longleftrightarrow> 2 * r < b"
  proof -
    have "x < 1 / 2 \<longleftrightarrow> 2 * real_of_int r < real_of_int b"
      using bpos by (simp add: x_def field_simps)
    also have "\<dots> \<longleftrightarrow> 2 * r < b" by linarith
    finally show ?thesis .
  qed
  have c2: "1 / 2 < x \<longleftrightarrow> b < 2 * r"
  proof -
    have "1 / 2 < x \<longleftrightarrow> real_of_int b < 2 * real_of_int r"
      using bpos by (simp add: x_def field_simps)
    also have "\<dots> \<longleftrightarrow> b < 2 * r" by linarith
    finally show ?thesis .
  qed
  have d: "real_of_int q + x - real_of_int q = x" by simp
  consider (lt) "2 * r < b" | (gt) "b < 2 * r" | (eq) "2 * r = b" by linarith
  then show ?thesis
  proof cases
    case lt
    then have "x < 1 / 2" using c1 by simp
    then have "round_real (real_of_int q + x) = q"
      unfolding round_real_def Let_def fl d by simp
    moreover have "round_half_even a b = q"
      using lt by (simp add: round_half_even_def Let_def q_def r_def)
    ultimately show ?thesis unfolding quot by simp
  next
    case gt
    then have "1 / 2 < x" using c2 by simp
    then have "round_real (real_of_int q + x) = q + 1"
      unfolding round_real_def Let_def fl d by simp
    moreover have "round_half_even a b = q + 1"
      using gt by (simp add: round_half_even_def Let_def q_def r_def)
    ultimately show ?thesis unfolding quot by simp
  next
    case eq
    then have "\<not> x < 1 / 2" "\<not> 1 / 2 < x" using c1 c2 by simp_all
    then have "round_real (real_of_int q + x) = (if even q then q else q + 1)"
      unfolding round_real_def Let_def fl d by simp
    moreover have "round_half_even a b = (if even q then q else q + 1)"
      using eq by (simp add: round_half_even_def Let_def q_def r_def)
    ultimately show ?thesis unfolding quot by simp
  qed
qed

lemma double_quotient_rounds_alike:
  assumes b: "0 < b" and small: "\<bar>a\<bar> < 2 ^ 52"
    and near: "\<bar>x - of_int a / of_int b\<bar> \<le> \<bar>of_int a / of_int b\<bar> / 2 ^ 53"
    and exact: "2 * (a mod b) = b \<Longrightarrow> x = of_int a / of_int b"
  shows "round_real x = round_half_even a b"
proof (cases "2 * (a mod b) = b")
  case True
  then show ?thesis using exact round_real_quotient[OF b] by simp
next
  case False
  define k where "k = round_half_even a b"
  define q where "q = real_of_int a / real_of_int b"
  have bpos: "0 < real_of_int b" using b by simp
  have r: "0 \<le> a mod b" "a mod b < b" using b by simp_all
  have a: "a = b * (a div b) + a mod b" by simp
  have "2 * \<bar>k * b - a\<bar> \<le> b - 1"
  proof (cases "2 * (a mod b) < b")
    case True
    then have "k = a div b" by (simp add: k_def round_half_even_def Let_def)
    then have "k * b - a = - (a mod b)"
      by (simp add: algebra_simps minus_mult_div_eq_mod [symmetric])
    then show ?thesis using True r by simp
  next
    case f: False
    with False have gt: "b < 2 * (a mod b)" by simp
    then have "k = a div b + 1" by (simp add: k_def round_half_even_def Let_def)
    then have "k * b - a = b - a mod b"
      by (simp add: algebra_simps minus_mult_div_eq_mod [symmetric])
    then show ?thesis using gt r by simp
  qed
  then have "2 * \<bar>real_of_int (k * b - a)\<bar> \<le> real_of_int (b - 1)"
    by (metis of_int_abs of_int_le_iff of_int_mult of_int_numeral)
  then have d: "2 * \<bar>real_of_int k * real_of_int b - real_of_int a\<bar> \<le> real_of_int b - 1"
    by simp
  have "real_of_int k - q = (real_of_int k * real_of_int b - real_of_int a) / real_of_int b"
    using bpos by (simp add: q_def field_simps)
  then have "\<bar>real_of_int k - q\<bar> = \<bar>real_of_int k * real_of_int b - real_of_int a\<bar> / real_of_int b"
    using bpos by (simp add: abs_divide)
  also have "\<dots> \<le> ((real_of_int b - 1) / 2) / real_of_int b"
    using d bpos by (intro divide_right_mono) auto
  also have "\<dots> = 1 / 2 - 1 / (2 * real_of_int b)"
    using bpos by (simp add: field_simps)
  finally have kq: "\<bar>real_of_int k - q\<bar> \<le> 1 / 2 - 1 / (2 * real_of_int b)" .
  define P :: real where "P = 2 ^ 52"
  have P: "(2::real) ^ 53 = 2 * P" "0 < P" by (simp_all add: P_def)
  have aP: "\<bar>real_of_int a\<bar> < P"
    unfolding P_def using small by (metis of_int_abs of_int_less_iff of_int_numeral of_int_power)
  have "\<bar>q\<bar> / 2 ^ 53 = (\<bar>real_of_int a\<bar> / P) * (1 / (2 * real_of_int b))"
    unfolding P using bpos P(2) by (simp add: q_def abs_divide)
  also have "\<dots> < 1 * (1 / (2 * real_of_int b))"
    using aP P(2) bpos by (intro mult_strict_right_mono) simp_all
  finally have e: "\<bar>q\<bar> / 2 ^ 53 < 1 / (2 * real_of_int b)" by simp
  have "\<bar>x - real_of_int k\<bar> \<le> \<bar>x - q\<bar> + \<bar>real_of_int k - q\<bar>" by linarith
  also have "\<dots> < 1 / 2"
    using near[folded q_def] e kq by linarith
  finally have "round_real x = k" by (rule round_real_near)
  then show ?thesis by (simp add: k_def)
qed

text \<open>
  The double quotient is such a real, so below \<open>2 ^ 52\<close> the source's rounded average is
  the exact mean rounded half to even.
\<close>

lemma pow2_powr: "pow2 i = 2 powr (real_of_int i)"
proof (cases "0 \<le> i")
  case True
  then have "2 powr (real_of_int i) = 2 powr (real (nat i))" by simp
  also have "\<dots> = 2 ^ nat i" by (simp add: powr_realpow)
  finally show ?thesis using True by (simp add: pow2_def)
next
  case False
  define n where "n = nat (- i)"
  have i: "real_of_int i = - real n" using False by (simp add: n_def)
  have "2 powr (real_of_int i) = inverse (2 powr (real n))"
    unfolding i by (rule powr_minus)
  also have "2 powr (real n) = 2 ^ n" by (rule powr_realpow) simp
  finally have "2 powr (real_of_int i) = 1 / 2 ^ n" by (simp only: inverse_eq_divide)
  moreover have "pow2 i = 1 / 2 ^ n" using False by (simp add: pow2_def n_def)
  ultimately show ?thesis by simp
qed

lemma pow2_pos: "0 < pow2 i"
  by (simp add: pow2_powr)

lemma pow2_add: "pow2 (i + j) = pow2 i * pow2 j"
  by (simp add: pow2_powr powr_add)

lemma pow2_mono: "i \<le> j \<Longrightarrow> pow2 i \<le> pow2 j"
  by (simp add: pow2_powr)

lemma pow2_less_iff: "pow2 i < pow2 j \<longleftrightarrow> i < j"
  by (simp add: pow2_powr)

lemma pow2_nat: "0 \<le> i \<Longrightarrow> pow2 i = 2 ^ nat i"
  by (simp add: pow2_def)

lemma bitlen_pow2_bounds:
  assumes "0 < a"
  shows "pow2 (bitlen a - 1) \<le> of_int a" and "of_int a < pow2 (bitlen a)"
proof -
  from bitlen_bounds[OF assms]
  have l: "2 ^ nat (bitlen a - 1) \<le> a" and u: "a < 2 ^ nat (bitlen a)" by auto
  have pos: "0 < bitlen a"
    using assms bitlen_eq_zero_iff[of a] bitlen_nonneg[of a] by (cases "bitlen a = 0") auto
  from l have "real_of_int (2 ^ nat (bitlen a - 1)) \<le> real_of_int a"
    by (simp only: of_int_le_iff)
  then show "pow2 (bitlen a - 1) \<le> of_int a"
    using pos by (simp add: pow2_nat)
  from u have "real_of_int a < real_of_int (2 ^ nat (bitlen a))"
    by (simp only: of_int_less_iff)
  then show "of_int a < pow2 (bitlen a)"
    using pos by (simp add: pow2_nat)
qed

lemma floor_log2_bounds:
  assumes "0 < a" "0 < b"
  shows "pow2 (floor_log2 a b) \<le> of_int a / of_int b"
    and "of_int a / of_int b < pow2 (floor_log2 a b + 1)"
proof -
  define d where "d = bitlen a - bitlen b"
  have bpos: "0 < real_of_int b" using assms by simp
  have la: "pow2 (bitlen a - 1) \<le> of_int a" "of_int a < pow2 (bitlen a)"
    using bitlen_pow2_bounds[OF assms(1)] by auto
  have lb: "pow2 (bitlen b - 1) \<le> of_int b" "of_int b < pow2 (bitlen b)"
    using bitlen_pow2_bounds[OF assms(2)] by auto
  have up: "of_int a < pow2 (d + 1) * of_int b"
  proof -
    have "pow2 (d + 1) * pow2 (bitlen b - 1) = pow2 (bitlen a)"
      by (simp add: d_def pow2_add [symmetric])
    then have "pow2 (bitlen a) \<le> pow2 (d + 1) * of_int b"
      using lb(1) pow2_pos[of "d + 1"] by (metis mult_left_mono less_imp_le)
    with la(2) show ?thesis by linarith
  qed
  have low: "pow2 (d - 1) * of_int b \<le> of_int a"
  proof -
    have "pow2 (d - 1) * pow2 (bitlen b) = pow2 (bitlen a - 1)"
      by (simp add: d_def pow2_add [symmetric])
    moreover have "pow2 (d - 1) * of_int b \<le> pow2 (d - 1) * pow2 (bitlen b)"
      using lb(2) pow2_pos[of "d - 1"] by (intro mult_left_mono) auto
    ultimately show ?thesis using la(1) by linarith
  qed
  show "pow2 (floor_log2 a b) \<le> of_int a / of_int b"
  proof (cases "pow2 d * of_int b \<le> of_int a")
    case True
    then have "floor_log2 a b = d" by (simp add: floor_log2_def d_def Let_def)
    with True bpos show ?thesis by (simp add: pos_le_divide_eq)
  next
    case False
    then have "floor_log2 a b = d - 1" by (simp add: floor_log2_def d_def Let_def)
    with low bpos show ?thesis by (simp add: pos_le_divide_eq)
  qed
  show "of_int a / of_int b < pow2 (floor_log2 a b + 1)"
  proof (cases "pow2 d * of_int b \<le> of_int a")
    case True
    then have "floor_log2 a b = d" by (simp add: floor_log2_def d_def Let_def)
    with up bpos show ?thesis by (simp add: pos_divide_less_eq)
  next
    case False
    then have "floor_log2 a b = d - 1" by (simp add: floor_log2_def d_def Let_def)
    with False bpos show ?thesis by (simp add: pos_divide_less_eq)
  qed
qed

lemma round_real_nearest: "\<bar>real_of_int (round_real y) - y\<bar> \<le> 1 / 2"
proof -
  define f where "f = \<lfloor>y\<rfloor>"
  define d where "d = y - of_int f"
  have d: "0 \<le> d" "d < 1" by (simp_all add: d_def f_def) linarith
  have y: "y = of_int f + d" by (simp add: d_def)
  have r: "round_real y = (if d < 1 / 2 then f else if 1 / 2 < d then f + 1
      else if even f then f else f + 1)"
    by (simp add: round_real_def Let_def f_def d_def)
  have "\<bar>real_of_int (round_real y) - (of_int f + d)\<bar> \<le> 1 / 2"
    unfolding r using d by auto
  then show ?thesis using y by simp
qed

lemma round_real_of_int: "round_real (of_int z) = z"
  by (rule round_real_near) simp


lemma double_quotient_exact:
  assumes b: "0 < b" and small: "\<bar>a\<bar> < 2 ^ 52"
  shows "round_real (double_quotient a b) = round_half_even a b"
proof (cases "a = 0")
  case True
  then show ?thesis
    using round_real_quotient[OF b, of 0] round_real_of_int[of 0]
    by (simp add: double_quotient_def)
next
  case False
  define e where "e = floor_log2 \<bar>a\<bar> \<bar>b\<bar>"
  define ulp where "ulp = pow2 (e - 52)"
  define q where "q = real_of_int a / real_of_int b"
  define x where "x = real_of_int (round_real (q / ulp)) * ulp"
  have dq: "double_quotient a b = x"
    using False by (simp add: double_quotient_def Let_def x_def ulp_def e_def q_def)
  have apos: "0 < \<bar>a\<bar>" using False by simp
  have bpos: "0 < real_of_int b" using b by simp
  have babs: "\<bar>b\<bar> = b" using b by simp
  have aq: "\<bar>q\<bar> = real_of_int \<bar>a\<bar> / real_of_int b"
    using bpos by (simp add: q_def abs_divide)
  have low: "pow2 e \<le> \<bar>q\<bar>"
    using floor_log2_bounds(1)[OF apos b] unfolding aq e_def babs .
  have upos: "0 < ulp" unfolding ulp_def by (rule pow2_pos)
  have u53: "ulp / 2 = pow2 e / 2 ^ 53"
  proof -
    have "pow2 e = pow2 (e - 52) * pow2 52"
      by (simp add: pow2_add [symmetric])
    also have "pow2 52 = 2 ^ 52" by (simp add: pow2_nat)
    finally show ?thesis by (simp add: ulp_def)
  qed
  have near: "\<bar>x - q\<bar> \<le> \<bar>q\<bar> / 2 ^ 53"
  proof -
    have "x - q = (real_of_int (round_real (q / ulp)) - q / ulp) * ulp"
      using upos by (simp add: x_def field_simps)
    then have "\<bar>x - q\<bar> = \<bar>real_of_int (round_real (q / ulp)) - q / ulp\<bar> * ulp"
      using upos by (simp add: abs_mult)
    also have "\<dots> \<le> (1 / 2) * ulp"
      using round_real_nearest[of "q / ulp"] upos by (intro mult_right_mono) auto
    also have "\<dots> = pow2 e / 2 ^ 53" using u53 by simp
    also have "\<dots> \<le> \<bar>q\<bar> / 2 ^ 53"
      using low by (intro divide_right_mono) auto
    finally show ?thesis .
  qed
  have exact: "x = q" if tie: "2 * (a mod b) = b"
  proof -
    have "real_of_int \<bar>a\<bar> < 2 ^ 52"
      using small by (metis of_int_less_iff of_int_numeral of_int_power)
    moreover have "real_of_int \<bar>a\<bar> / real_of_int b \<le> real_of_int \<bar>a\<bar>"
    proof -
      have "1 \<le> real_of_int b" using b by simp
      moreover have "0 \<le> real_of_int \<bar>a\<bar>" by simp
      ultimately have "real_of_int \<bar>a\<bar> * 1 \<le> real_of_int \<bar>a\<bar> * real_of_int b"
        by (intro mult_left_mono)
      then show ?thesis using bpos by (simp add: pos_divide_le_eq)
    qed
    ultimately have "\<bar>q\<bar> < pow2 52" unfolding aq by (simp add: pow2_nat)
    with low have "pow2 e < pow2 52" by linarith
    then have e: "e < 52" by (simp add: pow2_less_iff)
    define s where "s = nat (51 - e)"
    have ue: "e - 52 = - 1 - int s" using e by (simp add: s_def)
    have ulp: "1 / ulp = 2 * 2 ^ s"
    proof -
      have "pow2 (e - 52) * pow2 (1 + int s) = pow2 0"
        unfolding ue pow2_add [symmetric] by simp
      moreover have "pow2 (1 + int s) = 2 * 2 ^ s"
        by (simp add: pow2_def nat_add_distrib)
      moreover have "pow2 0 = 1" by (simp add: pow2_def)
      ultimately have "ulp * (2 * 2 ^ s) = 1" by (simp add: ulp_def)
      then show ?thesis using upos by (simp add: field_simps)
    qed
    have a2: "2 * a = b * (2 * (a div b) + 1)"
    proof -
      have "a = b * (a div b) + a mod b" by simp
      then have "2 * a = 2 * (b * (a div b)) + 2 * (a mod b)" by linarith
      then show ?thesis using tie by (simp add: algebra_simps)
    qed
    have "2 * q = real_of_int (2 * (a div b) + 1)"
    proof -
      have "2 * real_of_int a = real_of_int b * real_of_int (2 * (a div b) + 1)"
        using a2 by (metis of_int_mult of_int_numeral)
      then show ?thesis using bpos by (simp add: q_def field_simps)
    qed
    then have "q / ulp = real_of_int ((2 * (a div b) + 1) * 2 ^ s)"
    proof -
      assume h: "2 * q = real_of_int (2 * (a div b) + 1)"
      have "q / ulp = q * (1 / ulp)" by simp
      also have "\<dots> = (2 * q) * 2 ^ s" unfolding ulp by simp
      also have "\<dots> = real_of_int (2 * (a div b) + 1) * 2 ^ s" unfolding h ..
      finally show ?thesis by simp
    qed
    then have "real_of_int (round_real (q / ulp)) = q / ulp"
      by (simp only: round_real_of_int)
    then show ?thesis using upos by (simp add: x_def)
  qed
  have "round_real x = round_half_even a b"
    by (rule double_quotient_rounds_alike[OF b small near[unfolded q_def] exact[unfolded q_def]])
  then show ?thesis by (simp add: dq)
qed

lemma readings_on_snoc:
  "readings_on d (ps @ [p]) = (if date_part (fst p) = d then readings_on d ps @ [snd p] else readings_on d ps)"
  by (simp add: readings_on_def)

lemma fold_accumulate_map_of:
  "map_of (fst (fold accumulate ps ([], []))) d
      = (if readings_on d ps = [] then None else Some (sum_list (readings_on d ps)))
   \<and> map_of (snd (fold accumulate ps ([], []))) d
      = (if readings_on d ps = [] then None else Some (int (length (readings_on d ps))))"
proof (induction ps arbitrary: d rule: rev_induct)
  case Nil
  then show ?case by (simp add: readings_on_def)
next
  case (snoc p ps)
  define sc where "sc = fold accumulate ps ([], [])"
  define k where "k = date_part (fst p)"
  note ih = snoc.IH[folded sc_def]
  have s: "get_default (fst sc) k 0 = sum_list (readings_on k ps)"
    using ih[of k] by (simp add: get_default_def)
  have c: "get_default (snd sc) k 0 = int (length (readings_on k ps))"
    using ih[of k] by (simp add: get_default_def)
  have step: "fold accumulate (ps @ [p]) ([], [])
      = (AList.update k (sum_list (readings_on k ps) + snd p) (fst sc),
         AList.update k (int (length (readings_on k ps)) + 1) (snd sc))"
    by (simp add: accumulate_def Let_def s c flip: sc_def k_def)
  show ?case
    unfolding step using ih[of d]
    by (simp add: update_conv' readings_on_snoc flip: k_def)
qed

lemma fold_accumulate_distinct:
  "distinct (map fst (fst (fold accumulate ps ([], []))))"
proof (induction ps rule: rev_induct)
  case Nil
  then show ?case by simp
next
  case (snoc p ps)
  then show ?case by (simp add: accumulate_def Let_def distinct_update)
qed

lemma fold_accumulate_keys:
  "set (map fst (fst (fold accumulate ps ([], [])))) = set (map (\<lambda>p. date_part (fst p)) ps)"
proof -
  have "set (map fst (fst (fold accumulate ps ([], []))))
      = dom (map_of (fst (fold accumulate ps ([], []))))"
    by (simp add: dom_map_of_conv_image_fst)
  also have "\<dots> = {d. readings_on d ps \<noteq> []}"
    using fold_accumulate_map_of[of ps] by (auto simp: dom_def)
  also have "\<dots> = set (map (\<lambda>p. date_part (fst p)) ps)"
    by (auto simp: readings_on_def filter_empty_conv)
  finally show ?thesis .
qed

lemma sort_keys:
  "sort (map fst (fst (fold accumulate ps ([], []))))
     = sort (remdups (map (\<lambda>p. date_part (fst p)) ps))"
proof (rule sorted_distinct_set_unique)
  show "set (sort (map fst (fst (fold accumulate ps ([], [])))))
      = set (sort (remdups (map (\<lambda>p. date_part (fst p)) ps)))"
    using fold_accumulate_keys[of ps] by simp
qed (simp_all add: fold_accumulate_distinct)

lemma averages_eq:
  assumes "\<And>d. d \<in> set ds \<Longrightarrow> readings_on d ps \<noteq> []"
  shows "averages (fst (fold accumulate ps ([], []))) (snd (fold accumulate ps ([], []))) ds
     = Inr (map (avg_entry ps) ds)"
  using assms
proof (induction ds)
  case Nil
  then show ?case by simp
next
  case (Cons d ds)
  have ne: "readings_on d ps \<noteq> []" using Cons.prems by simp
  then have n0: "int (length (readings_on d ps)) \<noteq> 0" by simp
  have s: "subscript (fst (fold accumulate ps ([], []))) d = Inr (sum_list (readings_on d ps))"
    using fold_accumulate_map_of[of ps d] ne by (simp add: subscript_def)
  have c: "subscript (snd (fold accumulate ps ([], []))) d = Inr (int (length (readings_on d ps)))"
    using fold_accumulate_map_of[of ps d] ne by (simp add: subscript_def)
  have r: "round_div (sum_list (readings_on d ps)) (int (length (readings_on d ps)))
      = Inr (round_real (double_quotient (sum_list (readings_on d ps))
          (int (length (readings_on d ps)))))"
    using n0 by (simp add: round_div_def true_div_def)
  have ih: "averages (fst (fold accumulate ps ([], []))) (snd (fold accumulate ps ([], []))) ds
     = Inr (map (avg_entry ps) ds)"
    using Cons by simp
  show ?case
    by (simp add: s c r ih avg_entry_def)
qed

lemma calculate_daily_history_averages_eq:
  "calculate_daily_history_averages hist
     = Inr (map (avg_entry (readings hist))
         (sort (remdups (map (\<lambda>p. date_part (fst p)) (readings hist)))))"
proof -
  have main: "averages (fst (fold accumulate ps ([], []))) (snd (fold accumulate ps ([], [])))
        (sort (map fst (fst (fold accumulate ps ([], [])))))
      = Inr (map (avg_entry ps) (sort (remdups (map (\<lambda>p. date_part (fst p)) ps))))" for ps
  proof -
    have "\<And>d. d \<in> set (sort (remdups (map (\<lambda>p. date_part (fst p)) ps))) \<Longrightarrow> readings_on d ps \<noteq> []"
      by (auto simp: readings_on_def filter_empty_conv)
    then show ?thesis
      unfolding sort_keys by (rule averages_eq)
  qed
  show ?thesis
    by (auto simp: calculate_daily_history_averages_def readings_def Let_def main
        split: option.splits)
qed

lemma filter_eq_distinct: "distinct ks \<Longrightarrow> d \<in> set ks \<Longrightarrow> filter (\<lambda>k. k = d) ks = [d]"
  by (induction ks) (auto simp: filter_empty_conv)

lemma date_avg_entry: "date (avg_entry ps d) = d"
  by (simp add: avg_entry_def)

lemma filter_avg_entries:
  "filter (\<lambda>e. date e = d) (map (avg_entry ps) ks) = map (avg_entry ps) (filter (\<lambda>k. k = d) ks)"
  by (induction ks) (simp_all add: date_avg_entry)

lemma history_dates_distinct: "distinct (history_dates hist)"
  by (simp add: history_dates_def)

lemma set_history_dates: "set (history_dates hist) = set (map (\<lambda>p. date_part (fst p)) (readings hist))"
  by (simp add: history_dates_def)

lemma history_averages:
  "calculate_daily_history_averages hist = Inr (map (avg_entry (readings hist)) (history_dates hist))"
  by (simp add: calculate_daily_history_averages_eq history_dates_def)

text \<open>
  C9, as amended. For every date that has a reading in the history input (a timestamp
  paired with a value by \<open>zip\<close>) and whose readings sum to less than \<open>2 ^ 52\<close> in absolute
  value, the history-derived list holds exactly one entry for that date; its label is
  \<open>Avg. AQI (<date>)\<close> and its aqi is the arithmetic mean of that date's readings rounded
  to the nearest integer, a tie going to the even integer.
\<close>

theorem history_average_rounded:
  assumes "d \<in> set (map (\<lambda>p. date_part (fst p)) (readings hist))"
    and "\<bar>sum_list (readings_on d (readings hist))\<bar> < 2 ^ 52"
  shows "\<exists>out v. calculate_daily_history_averages hist = Inr out
     \<and> filter (\<lambda>e. date e = d) out = [\<lparr>date = d, label = ''Avg. AQI ('' @ d @ '')'', aqi = Some v\<rparr>]
     \<and> \<bar>real_of_int v - real_of_int (sum_list (readings_on d (readings hist)))
            / real (length (readings_on d (readings hist)))\<bar> \<le> 1 / 2
     \<and> (\<bar>real_of_int v - real_of_int (sum_list (readings_on d (readings hist)))
            / real (length (readings_on d (readings hist)))\<bar> = 1 / 2 \<longrightarrow> even v)"
proof -
  let ?ps = "readings hist"
  let ?rs = "readings_on d ?ps"
  let ?v = "round_half_even (sum_list ?rs) (int (length ?rs))"
  have d: "d \<in> set (history_dates hist)" using assms(1) by (simp add: set_history_dates)
  have "?rs \<noteq> []"
    using assms(1) by (auto simp: readings_on_def filter_empty_conv)
  then have pos: "0 < int (length ?rs)" by simp
  have v: "round_real (double_quotient (sum_list ?rs) (int (length ?rs))) = ?v"
    by (rule double_quotient_exact[OF pos assms(2)])
  have f: "filter (\<lambda>e. date e = d) (map (avg_entry ?ps) (history_dates hist))
      = [\<lparr>date = d, label = ''Avg. AQI ('' @ d @ '')'', aqi = Some ?v\<rparr>]"
    by (simp add: filter_avg_entries filter_eq_distinct[OF history_dates_distinct d] avg_entry_def v)
  from round_half_even_nearest[OF pos, of "sum_list ?rs"]
  have n: "\<bar>real_of_int ?v - real_of_int (sum_list ?rs) / real (length ?rs)\<bar> \<le> 1 / 2
     \<and> (\<bar>real_of_int ?v - real_of_int (sum_list ?rs) / real (length ?rs)\<bar> = 1 / 2 \<longrightarrow> even ?v)"
    by simp
  from history_averages[of hist] f n show ?thesis by blast
qed

theorem history_average_rounded_witness:
  "''2024-01-02'' \<in> set (map (\<lambda>p. date_part (fst p)) (readings sample_history))
   \<and> \<bar>sum_list (readings_on ''2024-01-02'' (readings sample_history))\<bar> < 2 ^ 52
   \<and> readings_on ''2024-01-02'' (readings sample_history) = [10, 13]
   \<and> calculate_daily_history_averages sample_history
       = Inr [\<lparr>date = ''2024-01-01'', label = ''Avg. AQI (2024-01-01)'', aqi = Some 20\<rparr>,
              \<lparr>date = ''2024-01-02'', label = ''Avg. AQI (2024-01-02)'', aqi = Some 12\<rparr>]
   \<and> (\<exists>out v. calculate_daily_history_averages sample_history = Inr out
       \<and> filter (\<lambda>e. date e = ''2024-01-02'') out
           = [\<lparr>date = ''2024-01-02'', label = ''Avg. AQI ('' @ ''2024-01-02'' @ '')'', aqi = Some v\<rparr>]
       \<and> \<bar>real_of_int v - real_of_int (sum_list (readings_on ''2024-01-02'' (readings sample_history)))
              / real (length (readings_on ''2024-01-02'' (readings sample_history)))\<bar> \<le> 1 / 2
       \<and> (\<bar>real_of_int v - real_of_int (sum_list (readings_on ''2024-01-02'' (readings sample_history)))
              / real (length (readings_on ''2024-01-02'' (readings sample_history)))\<bar> = 1 / 2
            \<longrightarrow> even v))"
proof -
  have h: "''2024-01-02'' \<in> set (map (\<lambda>p. date_part (fst p)) (readings sample_history))"
    by code_simp
  have b: "\<bar>sum_list (readings_on ''2024-01-02'' (readings sample_history))\<bar> < 2 ^ 52"
    by code_simp
  have r: "readings_on ''2024-01-02'' (readings sample_history) = [10, 13]"
    by code_simp
  have c: "calculate_daily_history_averages sample_history
       = Inr [\<lparr>date = ''2024-01-01'', label = ''Avg. AQI (2024-01-01)'', aqi = Some 20\<rparr>,
              \<lparr>date = ''2024-01-02'', label = ''Avg. AQI (2024-01-02)'', aqi = Some 12\<rparr>]"
    by code_simp
  show ?thesis
    by (intro conjI h b r c history_average_rounded [OF h b])
qed

text \<open>
  Beyond the bound the double quotient has lost the last bits of the sum: one reading of
  \<open>2 ^ 53 + 1\<close> averages to \<open>2 ^ 53\<close>, which is not its mean rounded to the nearest integer.
\<close>

theorem history_average_of_large_sum:
  "calculate_daily_history_averages
     (history_of [''2024-01-01T00:00:00.000Z''] [9007199254740993])
   = Inr [\<lparr>date = ''2024-01-01'', label = ''Avg. AQI (2024-01-01)'',
           aqi = Some 9007199254740992\<rparr>]
   \<and> \<not> \<bar>real_of_int 9007199254740992 - real_of_int 9007199254740993 / real 1\<bar> \<le> 1 / 2"
proof -
  have c: "calculate_daily_history_averages
     (history_of [''2024-01-01T00:00:00.000Z''] [9007199254740993])
   = Inr [\<lparr>date = ''2024-01-01'', label = ''Avg. AQI (2024-01-01)'',
           aqi = Some 9007199254740992\<rparr>]"
    by code_simp
  have n: "\<not> \<bar>real_of_int 9007199254740992 - real_of_int 9007199254740993 / real 1\<bar> \<le> 1 / 2"
    by simp
  from c n show ?thesis by (rule conjI)
qed

lemma readings_history_of: "readings (history_of ts aqius) = zip ts aqius"
  by (simp add: readings_def history_of_def)

lemma history_averages_readings:
  "readings h1 = readings h2 \<Longrightarrow> calculate_daily_history_averages h1 = calculate_daily_history_averages h2"
  by (simp add: history_averages history_dates_def)

lemma zip_take_min: "zip (take (min (length xs) (length ys)) xs) (take (min (length xs) (length ys)) ys) = zip xs ys"
proof -
  have "zip (take (min (length xs) (length ys)) xs) (take (min (length xs) (length ys)) ys)
      = take (min (length xs) (length ys)) (zip xs ys)"
    by (simp add: take_zip)
  then show ?thesis by simp
qed

text \<open>
  C10. With \<open>n\<close> the smaller of the two lengths, \<open>calculate_daily_history_averages\<close>
  visits the first \<open>n\<close> timestamp/value pairs only and raises no error: its result is
  the result on the two arrays cut to \<open>n\<close> elements, whatever trails the longer array.
\<close>

theorem history_zip_truncates:
  "(let n = min (length ts) (length aqius)
    in readings (history_of ts aqius) = zip (take n ts) (take n aqius)
     \<and> calculate_daily_history_averages (history_of ts aqius)
         = calculate_daily_history_averages (history_of (take n ts) (take n aqius))
     \<and> (\<exists>out. calculate_daily_history_averages (history_of ts aqius) = Inr out)
     \<and> calculate_daily_history_averages (history_of (take n ts @ more_ts) (take n aqius))
         = calculate_daily_history_averages (history_of ts aqius)
     \<and> calculate_daily_history_averages (history_of (take n ts) (take n aqius @ more_aqius))
         = calculate_daily_history_averages (history_of ts aqius))"
proof -
  define n where "n = min (length ts) (length aqius)"
  have z: "zip (take n ts) (take n aqius) = zip ts aqius"
    unfolding n_def by (rule zip_take_min)
  have len: "length (take n ts) = n" "length (take n aqius) = n"
    by (simp_all add: n_def)
  have z1: "zip (take n ts @ more_ts) (take n aqius) = zip ts aqius"
    using len by (simp add: zip_append1 z)
  have z2: "zip (take n ts) (take n aqius @ more_aqius) = zip ts aqius"
    using len by (simp add: zip_append2 z)
  have a: "readings (history_of ts aqius) = zip (take n ts) (take n aqius)"
    by (simp add: readings_history_of z)
  have b: "calculate_daily_history_averages (history_of ts aqius)
         = calculate_daily_history_averages (history_of (take n ts) (take n aqius))"
    by (rule history_averages_readings) (simp add: readings_history_of z)
  have c: "\<exists>out. calculate_daily_history_averages (history_of ts aqius) = Inr out"
    by (simp add: history_averages)
  have d: "calculate_daily_history_averages (history_of (take n ts @ more_ts) (take n aqius))
         = calculate_daily_history_averages (history_of ts aqius)"
    by (rule history_averages_readings) (simp add: readings_history_of z1)
  have e: "calculate_daily_history_averages (history_of (take n ts) (take n aqius @ more_aqius))
         = calculate_daily_history_averages (history_of ts aqius)"
    by (rule history_averages_readings) (simp add: readings_history_of z2)
  from a b c d e show ?thesis
    unfolding Let_def n_def by blast
qed

theorem history_zip_truncates_witness:
  "(let n = min (length [''2024-01-02T10:00:00.000Z'', ''2024-01-01T11:00:00.000Z'',
                 ''2024-01-03T09:00:00.000Z'']) (length [10, 20 :: int])
    in readings (history_of [''2024-01-02T10:00:00.000Z'', ''2024-01-01T11:00:00.000Z'',
                 ''2024-01-03T09:00:00.000Z''] [10, 20])
        = zip (take n [''2024-01-02T10:00:00.000Z'', ''2024-01-01T11:00:00.000Z'',
                 ''2024-01-03T09:00:00.000Z'']) (take n [10, 20])
     \<and> calculate_daily_history_averages (history_of [''2024-01-02T10:00:00.000Z'',
            ''2024-01-01T11:00:00.000Z'', ''2024-01-03T09:00:00.000Z''] [10, 20])
         = calculate_daily_history_averages (history_of (take n [''2024-01-02T10:00:00.000Z'',
            ''2024-01-01T11:00:00.000Z'', ''2024-01-03T09:00:00.000Z'']) (take n [10, 20]))
     \<and> (\<exists>out. calculate_daily_history_averages (history_of [''2024-01-02T10:00:00.000Z'',
            ''2024-01-01T11:00:00.000Z'', ''2024-01-03T09:00:00.000Z''] [10, 20]) = Inr out)
     \<and> calculate_daily_history_averages (history_of (take n [''2024-01-02T10:00:00.000Z'',
            ''2024-01-01T11:00:00.000Z'', ''2024-01-03T09:00:00.000Z''] @ [''2024-01-05T00'']) (take n [10, 20]))
         = calculate_daily_history_averages (history_of [''2024-01-02T10:00:00.000Z'',
            ''2024-01-01T11:00:00.000Z'', ''2024-01-03T09:00:00.000Z''] [10, 20])
     \<and> calculate_daily_history_averages (history_of (take n [''2024-01-02T10:00:00.000Z'',
            ''2024-01-01T11:00:00.000Z'', ''2024-01-03T09:00:00.000Z'']) (take n [10, 20] @ [500]))
         = calculate_daily_history_averages (history_of [''2024-01-02T10:00:00.000Z'',
            ''2024-01-01T11:00:00.000Z'', ''2024-01-03T09:00:00.000Z''] [10, 20]))
   \<and> calculate_daily_history_averages (history_of [''2024-01-02T10:00:00.000Z'',
            ''2024-01-01T11:00:00.000Z'', ''2024-01-03T09:00:00.000Z''] [10, 20])
       = Inr [\<lparr>date = ''2024-01-01'', label = ''Avg. AQI (2024-01-01)'', aqi = Some 20\<rparr>,
              \<lparr>date = ''2024-01-02'', label = ''Avg. AQI (2024-01-02)'', aqi = Some 10\<rparr>]"
proof -
  have c: "calculate_daily_history_averages (history_of [''2024-01-02T10:00:00.000Z'',
            ''2024-01-01T11:00:00.000Z'', ''2024-01-03T09:00:00.000Z''] [10, 20])
       = Inr [\<lparr>date = ''2024-01-01'', label = ''Avg. AQI (2024-01-01)'', aqi = Some 20\<rparr>,
              \<lparr>date = ''2024-01-02'', label = ''Avg. AQI (2024-01-02)'', aqi = Some 10\<rparr>]"
    by code_simp
  show ?thesis
    by (intro conjI c history_zip_truncates)
qed

section \<open>Properties of the merged daily series\<close>

lemma keyed_Nil: "keyed []"
  by (simp add: keyed_def)

lemma update_values:
  "list_all Q al \<Longrightarrow> Q (k, v) \<Longrightarrow> list_all Q (AList.update k v al)"
  by (induction al) auto

lemma keyed_update: "keyed m \<Longrightarrow> date v = k \<Longrightarrow> keyed (AList.update k v m)"
  by (simp add: keyed_def distinct_update update_values)

lemma keyed_add_history: "keyed m \<Longrightarrow> keyed (add_history ha m)"
  unfolding add_history_def
  by (induction ha arbitrary: m) (simp_all add: keyed_update)

lemma keyed_add_forecast: "keyed m \<Longrightarrow> keyed (add_forecast fa m)"
  unfolding add_forecast_def
  by (induction fa arbitrary: m) (simp_all add: keyed_update)

lemma keyed_add_current: "keyed m \<Longrightarrow> keyed (add_current a now m)"
  by (cases a) (simp_all add: add_current_def keyed_update)

lemma map_of_add_history:
  "distinct (map date ha) \<Longrightarrow> map_of (add_history ha m) d
     = (case find (\<lambda>e. date e = d) ha of Some e \<Rightarrow> Some e | None \<Rightarrow> map_of m d)"
  unfolding add_history_def
proof (induction ha arbitrary: m)
  case Nil
  then show ?case by simp
next
  case (Cons x xs)
  have "date x = d \<Longrightarrow> find (\<lambda>e. date e = d) xs = None"
  proof -
    assume dx: "date x = d"
    have "date x \<notin> date ` set xs" using Cons.prems by simp
    then have "\<not> (\<exists>y. y \<in> set xs \<and> date y = d)" unfolding dx by blast
    then show ?thesis unfolding find_None_iff .
  qed
  then show ?case
    using Cons by (auto simp: update_conv' split: option.splits)
qed

lemma map_of_add_forecast:
  "map_of (add_forecast fa m) d
     = (case map_of m d of Some e \<Rightarrow> Some e | None \<Rightarrow> find (\<lambda>e. date e = d) fa)"
  unfolding add_forecast_def
proof (induction fa arbitrary: m)
  case Nil
  then show ?case by (simp split: option.splits)
next
  case (Cons x xs)
  show ?case
    by (auto simp: Cons.IH update_conv' split: option.splits)
qed

lemma map_of_add_current:
  "map_of (add_current a now m) d
     = (case a of Some x \<Rightarrow> if d = now then Some \<lparr>date = now, label = ''Current AQI'', aqi = Some x\<rparr>
                           else map_of m d
        | None \<Rightarrow> map_of m d)"
  by (cases a) (simp_all add: add_current_def update_conv')

lemma keyed_filter:
  "keyed m \<Longrightarrow> filter (\<lambda>e. date e = d) (map snd m)
     = (case map_of m d of None \<Rightarrow> [] | Some e \<Rightarrow> [e])"
proof (induction m)
  case Nil
  then show ?case by simp
next
  case (Cons p m)
  then have k: "keyed m" and dp: "date (snd p) = fst p" and nin: "fst p \<notin> fst ` set m"
    by (auto simp: keyed_def)
  have "fst p = d \<Longrightarrow> map_of m d = None"
    using nin by (simp add: map_of_eq_None_iff)
  then show ?case
    using Cons.IH[OF k] dp by (cases p) (auto split: option.splits)
qed

lemma entries_on_date:
  "keyed m \<Longrightarrow> filter (\<lambda>e. date e = d) (sort_key date (map snd m))
     = (case map_of m d of None \<Rightarrow> [] | Some e \<Rightarrow> [e])"
  by (simp add: filter_sort keyed_filter split: option.splits)

lemma distinct_map_sort_key: "distinct (map f (sort_key g ys)) = distinct (map f ys)"
  by (simp add: distinct_map)

lemma keyed_sorted_distinct:
  assumes "keyed m"
  shows "sorted (map date (sort_key date (map snd m)))
     \<and> distinct (map date (sort_key date (map snd m)))"
proof -
  have "list_all (\<lambda>p. date (snd p) = fst p) m \<Longrightarrow> map date (map snd m) = map fst m"
    by (induction m) auto
  then have "map date (map snd m) = map fst m"
    using assms by (simp add: keyed_def)
  moreover have "distinct (map fst m)"
    using assms by (simp add: keyed_def)
  ultimately have "distinct (map date (map snd m))"
    by (simp only:)
  then have "distinct (map date (sort_key date (map snd m)))"
    by (simp only: distinct_map_sort_key)
  moreover have "sorted (map date (sort_key date (map snd m)))"
    by (rule sorted_sort_key)
  ultimately show ?thesis by blast
qed

lemma keyed_combine:
  "keyed (add_current a now (add_forecast fa (add_history ha [])))"
  by (intro keyed_add_current keyed_add_forecast keyed_add_history keyed_Nil)

lemma combine_entries_on_date:
  assumes "distinct (map date ha)"
  shows "filter (\<lambda>e. date e = d) (combine_daily_aqi ha fa a now)
     = (case (case a of Some x \<Rightarrow> if d = now then Some \<lparr>date = now, label = ''Current AQI'', aqi = Some x\<rparr>
                           else None | None \<Rightarrow> None) of
          Some e \<Rightarrow> [e]
        | None \<Rightarrow> (case find (\<lambda>e. date e = d) ha of Some e \<Rightarrow> [e]
            | None \<Rightarrow> (case find (\<lambda>e. date e = d) fa of Some e \<Rightarrow> [e] | None \<Rightarrow> [])))"
  unfolding combine_daily_aqi_def entries_on_date[OF keyed_combine]
  by (simp add: map_of_add_current map_of_add_forecast map_of_add_history[OF assms]
      split: option.splits)

lemma calculate_daily_forecast_aqi_eq:
  "calculate_daily_forecast_aqi fc = map forecast_entry (forecast_days fc)"
  by (simp add: calculate_daily_forecast_aqi_def forecast_days_def forecast_entry_def Let_def
      split: option.splits)

lemma daily_summary_eq:
  "daily_summary hist fc a now
     = Inr (combine_daily_aqi (map (avg_entry (readings hist)) (history_dates hist))
         (map forecast_entry (forecast_days fc)) a now)"
  by (simp add: daily_summary_def history_averages calculate_daily_forecast_aqi_eq)

lemma map_date_avg_entries: "map date (map (avg_entry ps) ks) = ks"
  by (induction ks) (simp_all add: date_avg_entry)

lemma find_avg_entries:
  "find (\<lambda>e. date e = d) (map (avg_entry ps) ks)
     = (if d \<in> set ks then Some (avg_entry ps d) else None)"
  by (induction ks) (auto simp: date_avg_entry)

lemma find_forecast_entries:
  "find (\<lambda>e. date e = d) (map forecast_entry days)
     = map_option forecast_entry (find (\<lambda>day_data. date_part (d_ts day_data) = d) days)"
  by (induction days) (auto simp: forecast_entry_def)

lemma summary_entries_on_date:
  "filter (\<lambda>e. date e = d)
       (combine_daily_aqi (map (avg_entry (readings hist)) (history_dates hist))
         (map forecast_entry (forecast_days fc)) a now)
     = (if a \<noteq> None \<and> d = now then [\<lparr>date = now, label = ''Current AQI'', aqi = a\<rparr>]
        else if d \<in> set (history_dates hist) then [avg_entry (readings hist) d]
        else (case find (\<lambda>day_data. date_part (d_ts day_data) = d) (forecast_days fc) of
               Some day_data \<Rightarrow> [forecast_entry day_data] | None \<Rightarrow> []))"
proof -
  have dist: "distinct (map date (map (avg_entry (readings hist)) (history_dates hist)))"
    unfolding map_date_avg_entries by (rule history_dates_distinct)
  show ?thesis
    unfolding combine_entries_on_date[OF dist] find_avg_entries find_forecast_entries
    by (cases a) (auto split: option.splits)
qed

lemma daily_summary_sorted_distinct:
  "\<exists>out. daily_summary hist fc a current_date = Inr out
     \<and> sorted (map date out) \<and> distinct (map date out)"
  unfolding daily_summary_eq combine_daily_aqi_def
  using keyed_sorted_distinct[OF keyed_combine] by blast

text \<open>
  C1. With a current AQI value \<open>x\<close> and the current UTC date \<open>D\<close>, the daily series
  holds exactly one entry for \<open>D\<close>, with aqi \<open>x\<close> and the label \<open>Current AQI\<close>, whatever
  history and forecast hold for \<open>D\<close>. Without a current AQI value, the entry for \<open>D\<close> is
  the history average of \<open>D\<close> when history has readings on \<open>D\<close>, else the first forecast
  entry for \<open>D\<close>, else there is none.
\<close>

theorem current_aqi_overrides:
  "(\<exists>out. daily_summary hist fc (Some x) current_date = Inr out
      \<and> filter (\<lambda>e. date e = current_date) out
          = [\<lparr>date = current_date, label = ''Current AQI'', aqi = Some x\<rparr>])
   \<and> (\<exists>out. daily_summary hist fc None current_date = Inr out
      \<and> filter (\<lambda>e. date e = current_date) out
          = (if current_date \<in> set (history_dates hist)
               then [avg_entry (readings hist) current_date]
             else (case find (\<lambda>day_data. date_part (d_ts day_data) = current_date) (forecast_days fc) of
                     Some day_data \<Rightarrow> [forecast_entry day_data] | None \<Rightarrow> [])))"
  unfolding daily_summary_eq by (simp add: summary_entries_on_date)

theorem current_aqi_overrides_witness:
  "daily_summary sample_history sample_forecast (Some 42) ''2024-01-02''
     = Inr [\<lparr>date = ''2024-01-01'', label = ''Avg. AQI (2024-01-01)'', aqi = Some 20\<rparr>,
            \<lparr>date = ''2024-01-02'', label = ''Current AQI'', aqi = Some 42\<rparr>,
            \<lparr>date = ''2024-01-04'', label = ''Forecast AQI (2024-01-04)'', aqi = Some 9\<rparr>]
   \<and> ((\<exists>out. daily_summary sample_history sample_forecast (Some 42) ''2024-01-02'' = Inr out
      \<and> filter (\<lambda>e. date e = ''2024-01-02'') out
          = [\<lparr>date = ''2024-01-02'', label = ''Current AQI'', aqi = Some 42\<rparr>])
   \<and> (\<exists>out. daily_summary sample_history sample_forecast None ''2024-01-02'' = Inr out
      \<and> filter (\<lambda>e. date e = ''2024-01-02'') out
          = (if ''2024-01-02'' \<in> set (history_dates sample_history)
               then [avg_entry (readings sample_history) ''2024-01-02'']
             else (case find (\<lambda>day_data. date_part (d_ts day_data) = ''2024-01-02'')
                          (forecast_days sample_forecast) of
                     Some day_data \<Rightarrow> [forecast_entry day_data] | None \<Rightarrow> []))))"
proof -
  have c: "daily_summary sample_history sample_forecast (Some 42) ''2024-01-02''
     = Inr [\<lparr>date = ''2024-01-01'', label = ''Avg. AQI (2024-01-01)'', aqi = Some 20\<rparr>,
            \<lparr>date = ''2024-01-02'', label = ''Current AQI'', aqi = Some 42\<rparr>,
            \<lparr>date = ''2024-01-04'', label = ''Forecast AQI (2024-01-04)'', aqi = Some 9\<rparr>]"
    by code_simp
  show ?thesis
    by (rule conjI [OF c current_aqi_overrides])
qed

text \<open>
  C3, as amended. For every date other than the current UTC date of a call that has a
  current AQI value: when the date has readings in the history, the entry of the daily
  series for it carries the history average and the label \<open>Avg. AQI (<date>)\<close>, whether
  or not the forecast has the date too; when it has none and the forecast has the date,
  the entry carries the value of the first forecast day of that date and the label
  \<open>Forecast AQI (<date>)\<close>.
\<close>

theorem forecast_fills_gaps:
  assumes "a = None \<or> d \<noteq> current_date"
  shows "\<exists>out. daily_summary hist fc a current_date = Inr out
     \<and> (d \<in> set (history_dates hist) \<longrightarrow>
          filter (\<lambda>e. date e = d) out
            = [\<lparr>date = d, label = ''Avg. AQI ('' @ d @ '')'',
                aqi = Some (round_real (double_quotient (sum_list (readings_on d (readings hist)))
                        (int (length (readings_on d (readings hist))))))\<rparr>])
     \<and> (d \<notin> set (history_dates hist) \<longrightarrow>
          (\<forall>day_data. find (\<lambda>x. date_part (d_ts x) = d) (forecast_days fc) = Some day_data \<longrightarrow>
             filter (\<lambda>e. date e = d) out
               = [\<lparr>date = d, label = ''Forecast AQI ('' @ d @ '')'', aqi = d_aqius day_data\<rparr>]))"
proof -
  have fe: "forecast_entry day_data
      = \<lparr>date = d, label = ''Forecast AQI ('' @ d @ '')'', aqi = d_aqius day_data\<rparr>"
    if "find (\<lambda>x. date_part (d_ts x) = d) (forecast_days fc) = Some day_data" for day_data
  proof -
    from that have "date_part (d_ts day_data) = d" by (auto simp: find_Some_iff)
    then show ?thesis by (simp add: forecast_entry_def)
  qed
  show ?thesis
    unfolding daily_summary_eq using assms
    by (auto simp: summary_entries_on_date avg_entry_def fe)
qed

theorem forecast_fills_gaps_witness:
  "(Some (42::int) = None \<or> ''2024-01-04'' \<noteq> ''2024-01-03'')
   \<and> ''2024-01-04'' \<notin> set (history_dates sample_history)
   \<and> find (\<lambda>x. date_part (d_ts x) = ''2024-01-04'') (forecast_days sample_forecast)
       = Some \<lparr>d_ts = ''2024-01-04T00:00:00.000Z'', d_aqius = Some 9\<rparr>
   \<and> (\<exists>out. daily_summary sample_history sample_forecast (Some 42) ''2024-01-03'' = Inr out
       \<and> filter (\<lambda>e. date e = ''2024-01-04'') out
           = [\<lparr>date = ''2024-01-04'', label = ''Forecast AQI ('' @ ''2024-01-04'' @ '')'',
               aqi = Some 9\<rparr>])
   \<and> (Some (42::int) = None \<or> ''2024-01-02'' \<noteq> ''2024-01-03'')
   \<and> ''2024-01-02'' \<in> set (history_dates sample_history)
   \<and> (\<exists>out. daily_summary sample_history sample_forecast (Some 42) ''2024-01-03'' = Inr out
       \<and> filter (\<lambda>e. date e = ''2024-01-02'') out
           = [\<lparr>date = ''2024-01-02'', label = ''Avg. AQI ('' @ ''2024-01-02'' @ '')'',
               aqi = Some (round_real (double_quotient
                 (sum_list (readings_on ''2024-01-02'' (readings sample_history)))
                 (int (length (readings_on ''2024-01-02'' (readings sample_history))))))\<rparr>])"
proof -
  have h1: "Some (42::int) = None \<or> ''2024-01-04'' \<noteq> ''2024-01-03''" by simp
  have h2: "Some (42::int) = None \<or> ''2024-01-02'' \<noteq> ''2024-01-03''" by simp
  have n: "''2024-01-04'' \<notin> set (history_dates sample_history)" by code_simp
  have i: "''2024-01-02'' \<in> set (history_dates sample_history)" by code_simp
  have f: "find (\<lambda>x. date_part (d_ts x) = ''2024-01-04'') (forecast_days sample_forecast)
       = Some \<lparr>d_ts = ''2024-01-04T00:00:00.000Z'', d_aqius = Some 9\<rparr>"
    by code_simp
  from forecast_fills_gaps [OF h1, of sample_history sample_forecast] n f
  have a: "\<exists>out. daily_summary sample_history sample_forecast (Some 42) ''2024-01-03'' = Inr out
       \<and> filter (\<lambda>e. date e = ''2024-01-04'') out
           = [\<lparr>date = ''2024-01-04'', label = ''Forecast AQI ('' @ ''2024-01-04'' @ '')'',
               aqi = Some 9\<rparr>]"
    by fastforce
  from forecast_fills_gaps [OF h2, of sample_history sample_forecast] i
  have b: "\<exists>out. daily_summary sample_history sample_forecast (Some 42) ''2024-01-03'' = Inr out
       \<and> filter (\<lambda>e. date e = ''2024-01-02'') out
           = [\<lparr>date = ''2024-01-02'', label = ''Avg. AQI ('' @ ''2024-01-02'' @ '')'',
               aqi = Some (round_real (double_quotient
                 (sum_list (readings_on ''2024-01-02'' (readings sample_history)))
                 (int (length (readings_on ''2024-01-02'' (readings sample_history))))))\<rparr>]"
    by blast
  show ?thesis
    by (intro conjI h1 n f a h2 i b)
qed

text \<open>
  On the current date the forecast entry gives way to the current reading: the claim
  without the exception fails there.
\<close>

theorem forecast_for_today_overridden:
  "daily_summary None
     (Some \<lparr>daily = Some [\<lparr>d_ts = ''2024-01-03T00:00:00.000Z'', d_aqius = Some 50\<rparr>]\<rparr>)
     (Some 40) ''2024-01-03''
   = Inr [\<lparr>date = ''2024-01-03'', label = ''Current AQI'', aqi = Some 40\<rparr>]
   \<and> \<lparr>date = ''2024-01-03'', label = ''Current AQI'', aqi = Some 40\<rparr>
     \<noteq> \<lparr>date = ''2024-01-03'', label = ''Forecast AQI (2024-01-03)'', aqi = Some 50\<rparr>"
  by code_simp

section \<open>Properties of the client\<close>

lemma backoff_Suc: "backoff delay (Suc j) = delay # backoff (delay * 2) j"
proof -
  have "[0..<Suc j] = 0 # map Suc [0..<j]"
    by (simp add: upt_conv_Cons map_Suc_upt del: upt_Suc)
  then show ?thesis
    by (simp add: backoff_def comp_def del: upt_Suc)
qed

lemma try_body_rate_limited:
  assumes "rate_limited got"
  shows "try_body cty sta ctr now got = Inr None
    \<or> (\<exists>m. try_body cty sta ctr now got = Inl (HTTPError 429 m))"
  using assms
  by (auto simp: rate_limited_def raised_def decoded_def says_success_def try_body_def
      split: get_outcome.splits option.splits sum.splits exn.splits if_splits)

lemma attempts_rate_limited_step:
  assumes "rate_limited (remote (requests_made w))"
  shows "attempts remote cty sta ctr now mr (Suc n) delay w
     = attempts remote cty sta ctr now mr n (delay * 2) (after 1 [delay] w)"
proof -
  have w: "sleep delay (request_sent w) = after 1 [delay] w"
    by (simp add: sleep_def request_sent_def after_def)
  from try_body_rate_limited[OF assms, of cty sta ctr now]
  show ?thesis
    by (auto simp: Let_def w)
qed

lemma after_after: "after j ds (after i es w) = after (i + j) (es @ ds) w"
  by (simp add: after_def)

lemma attempts_after_rate_limits:
  assumes "\<forall>i<j. rate_limited (remote (requests_made w + i))"
  shows "attempts remote cty sta ctr now mr (j + n) delay w
     = attempts remote cty sta ctr now mr n (delay * 2 ^ j) (after j (backoff delay j) w)"
  using assms
proof (induction j arbitrary: w delay)
  case 0
  then show ?case by (simp add: after_def backoff_def)
next
  case (Suc j)
  have first: "rate_limited (remote (requests_made w))"
    using Suc.prems by force
  have rest: "\<forall>i<j. rate_limited (remote (requests_made (after 1 [delay] w) + i))"
    using Suc.prems by (auto simp: after_def)
  have "attempts remote cty sta ctr now mr (Suc j + n) delay w
      = attempts remote cty sta ctr now mr (j + n) (delay * 2) (after 1 [delay] w)"
    using attempts_rate_limited_step[of remote w, OF first] by simp
  also have "\<dots> = attempts remote cty sta ctr now mr n (delay * 2 * 2 ^ j)
      (after j (backoff (delay * 2) j) (after 1 [delay] w))"
    by (rule Suc.IH[OF rest])
  finally show ?case
    by (simp add: after_after backoff_Suc mult.assoc)
qed

lemma success_result_ok:
  "\<exists>r. success_result cty sta ctr now cd = Inr (Success r)
     \<and> r_city r = cty \<and> r_state r = sta \<and> r_country r = ctr
     \<and> daily_summary (history cd) (forecast cd) (aqi_us r) now = Inr (daily_aqi_summary r)"
  by (simp add: success_result_def Let_def daily_summary_eq)

lemma success_result_sorted:
  assumes "success_result cty sta ctr now cd = Inr (Success r)"
  shows "sorted (map date (daily_aqi_summary r)) \<and> distinct (map date (daily_aqi_summary r))"
proof -
  from success_result_ok[of cty sta ctr now cd] assms
  have "daily_summary (history cd) (forecast cd) (aqi_us r) now = Inr (daily_aqi_summary r)"
    by auto
  with daily_summary_sorted_distinct[of "history cd" "forecast cd" "aqi_us r" now]
  show ?thesis by auto
qed

lemma try_body_success:
  assumes "success_payload got = Some cd"
  shows "try_body cty sta ctr now got = (case success_result cty sta ctr now cd of
      Inl e \<Rightarrow> Inl e | Inr res \<Rightarrow> Inr (Some res))"
  using assms
  by (auto simp: success_payload_def decoded_def try_body_def
      split: get_outcome.splits option.splits sum.splits if_splits)

lemma try_body_Success_sorted:
  assumes "try_body cty sta ctr now got = Inr (Some (Success r))"
  shows "sorted (map date (daily_aqi_summary r)) \<and> distinct (map date (daily_aqi_summary r))"
proof -
  from assms obtain cd where "success_result cty sta ctr now cd = Inr (Success r)"
    by (auto simp: try_body_def split: get_outcome.splits option.splits sum.splits if_splits)
  then show ?thesis by (rule success_result_sorted)
qed

lemma attempts_Success_sorted:
  assumes "attempts remote cty sta ctr now mr n delay w = (Success r, w')"
  shows "sorted (map date (daily_aqi_summary r)) \<and> distinct (map date (daily_aqi_summary r))"
  using assms
proof (induction n arbitrary: delay w)
  case 0
  then show ?case by simp
next
  case (Suc n)
  show ?case
  proof (cases "try_body cty sta ctr now (remote (requests_made w))")
    case (Inl e)
    with Suc show ?thesis
      by (cases e) (auto simp: Let_def split: if_splits)
  next
    case (Inr res)
    show ?thesis
    proof (cases res)
      case None
      with Inr Suc show ?thesis by (auto simp: Let_def)
    next
      case (Some x)
      with Inr Suc.prems have "x = Success r" by (simp add: Let_def)
      with Inr Some show ?thesis using try_body_Success_sorted by blast
    qed
  qed
qed

lemma attempts_success_step:
  assumes "success_payload (remote (requests_made w)) = Some cd"
  shows "\<exists>r. attempts remote cty sta ctr now mr (Suc n) delay w = (Success r, after 1 [] w)
     \<and> r_city r = cty \<and> r_state r = sta \<and> r_country r = ctr
     \<and> daily_summary (history cd) (forecast cd) (aqi_us r) now = Inr (daily_aqi_summary r)"
proof -
  obtain r where r: "success_result cty sta ctr now cd = Inr (Success r)"
    "r_city r = cty" "r_state r = sta" "r_country r = ctr"
    "daily_summary (history cd) (forecast cd) (aqi_us r) now = Inr (daily_aqi_summary r)"
    using success_result_ok[of cty sta ctr now cd] by blast
  have "try_body cty sta ctr now (remote (requests_made w)) = Inr (Some (Success r))"
    using try_body_success[OF assms, of cty sta ctr now] r(1) by simp
  then have "attempts remote cty sta ctr now mr (Suc n) delay w = (Success r, after 1 [] w)"
    by (simp add: Let_def request_sent_def after_def)
  with r show ?thesis by blast
qed

lemma attempts_failure_step:
  assumes "\<not> rate_limited (remote (requests_made w))"
    and "success_payload (remote (requests_made w)) = None"
  shows "attempts remote cty sta ctr now mr (Suc n) delay w
     = (Failure (failure_value (remote (requests_made w))), after 1 [] w)"
proof -
  have w: "request_sent w = after 1 [] w"
    by (simp add: request_sent_def after_def)
  show ?thesis
    using assms unfolding attempts.simps Let_def w
    by (auto simp: rate_limited_def raised_def decoded_def says_success_def try_body_def
        success_payload_def failure_value_def
        split: get_outcome.splits option.splits sum.splits exn.splits if_splits)
qed

lemma after_world:
  "after j ds w = w\<lparr>requests_made := requests_made w + j, sleeps := sleeps w @ ds\<rparr>"
  by (simp add: after_def)

lemma failure_value_http:
  "raised got = Some (HTTPError c m) \<Longrightarrow> failure_value got = ErrText (''API HTTP Error: '' @ m)"
  by (simp add: failure_value_def)

lemma failure_value_request:
  "raised got = Some (RequestException m) \<Longrightarrow> failure_value got = ErrText (''API Request Error: '' @ m)"
  by (simp add: failure_value_def)

lemma failure_value_other:
  "raised got = Some e \<Longrightarrow> (\<forall>c m. e \<noteq> HTTPError c m) \<Longrightarrow> (\<forall>m. e \<noteq> RequestException m)
    \<Longrightarrow> failure_value got = ErrText (''An unexpected error occurred: '' @ str_exn e)"
  by (cases e) (simp_all add: failure_value_def)

lemma failure_value_payload:
  "raised got = None \<Longrightarrow> decoded got = Some (code, Some d) \<Longrightarrow> p_status d \<noteq> Some ''success''
    \<Longrightarrow> failure_value got = (case p_data d of Some x \<Rightarrow> ErrData x
                 | None \<Rightarrow> ErrText (''City data not available. Status: '' @ str_int code))"
  by (simp add: failure_value_def)

lemma not_rate_limited_http:
  "\<not> rate_limited got \<Longrightarrow> raised got = Some (HTTPError c m) \<Longrightarrow> c \<noteq> 429"
  by (auto simp: rate_limited_def)

lemma not_rate_limited_payload:
  "\<not> rate_limited got \<Longrightarrow> raised got = None \<Longrightarrow> decoded got = Some (code, Some d)
    \<Longrightarrow> p_status d \<noteq> Some ''success'' \<Longrightarrow> code \<noteq> 429"
  by (auto simp: rate_limited_def says_success_def)

text \<open>
  C6. For every history, forecast and current AQI value the daily series is sorted
  ascending by date string and holds at most one entry per date; so is the
  \<open>daily_aqi_summary\<close> of every success result of \<open>get_air_quality_data\<close>.
\<close>

theorem daily_aqi_summary_sorted_distinct:
  "(\<exists>out. daily_summary hist fc a current_date = Inr out
       \<and> sorted (map date out) \<and> distinct (map date out))
   \<and> (fst (get_air_quality_data remote current_date cty sta ctr max_retries delay w) = Success r
       \<longrightarrow> sorted (map date (daily_aqi_summary r)) \<and> distinct (map date (daily_aqi_summary r)))"
proof -
  have "sorted (map date (daily_aqi_summary r)) \<and> distinct (map date (daily_aqi_summary r))"
    if "fst (get_air_quality_data remote current_date cty sta ctr max_retries delay w) = Success r"
  proof -
    have "get_air_quality_data remote current_date cty sta ctr max_retries delay w
        = (Success r, snd (get_air_quality_data remote current_date cty sta ctr max_retries delay w))"
      using that by (simp add: prod_eq_iff)
    then show ?thesis
      unfolding get_air_quality_data_def by (rule attempts_Success_sorted)
  qed
  with daily_summary_sorted_distinct[of hist fc a current_date] show ?thesis by blast
qed

theorem daily_aqi_summary_sorted_distinct_witness:
  "fst (get_air_quality_data (remote_of [ok_response]) ''2024-01-03''
          ''Springfield'' ''IL'' ''USA'' 3 1 start) = Success sample_result
   \<and> sorted (map date (daily_aqi_summary sample_result))
   \<and> distinct (map date (daily_aqi_summary sample_result))
   \<and> map date (daily_aqi_summary sample_result)
       = [''2024-01-01'', ''2024-01-02'', ''2024-01-03'', ''2024-01-04'']"
proof -
  have h: "fst (get_air_quality_data (remote_of [ok_response]) ''2024-01-03''
          ''Springfield'' ''IL'' ''USA'' 3 1 start) = Success sample_result"
    by code_simp
  have m: "map date (daily_aqi_summary sample_result)
       = [''2024-01-01'', ''2024-01-02'', ''2024-01-03'', ''2024-01-04'']"
    by code_simp
  from daily_aqi_summary_sorted_distinct
    [of None None None "''2024-01-03''" "remote_of [ok_response]" "''Springfield''" "''IL''"
        "''USA''" 3 1 start sample_result] h
  have s: "sorted (map date (daily_aqi_summary sample_result))
     \<and> distinct (map date (daily_aqi_summary sample_result))"
    by blast
  from h s m show ?thesis by blast
qed

text \<open>
  C2. With \<open>max_retries = 3\<close> and an initial delay of 1: when the first two attempts meet
  a 429 and the third a success payload, the call returns a success result after three
  requests and exactly two sleeps, of 1 and then 2. When every one of the \<open>max_retries\<close>
  attempts meets a 429, the call returns the failure that names the rate limiting, after
  \<open>max_retries\<close> requests, having slept the doubling delays. A 429 raised as an HTTP error
  and a 429 that is the status code of a response which raised nothing are both rate
  limited, and are retried alike.
\<close>

theorem rate_limit_backoff:
  "(rate_limited (remote (requests_made w)) \<and> rate_limited (remote (requests_made w + 1))
      \<and> success_payload (remote (requests_made w + 2)) = Some cd
     \<longrightarrow> (\<exists>r. get_air_quality_data remote now cty sta ctr 3 1 w
              = (Success r, w\<lparr>requests_made := requests_made w + 3, sleeps := sleeps w @ [1, 2]\<rparr>)
            \<and> r_city r = cty \<and> r_state r = sta \<and> r_country r = ctr
            \<and> daily_summary (history cd) (forecast cd) (aqi_us r) now = Inr (daily_aqi_summary r)))
   \<and> ((\<forall>i < nat max_retries. rate_limited (remote (requests_made w + i)))
     \<longrightarrow> get_air_quality_data remote now cty sta ctr max_retries delay w
          = (Failure (ErrText (''Failed to retrieve data for '' @ cty @ '' after ''
                @ str_int max_retries @ '' attempts due to rate limiting.'')),
             w\<lparr>requests_made := requests_made w + nat max_retries,
               sleeps := sleeps w @ map (\<lambda>i. delay * 2 ^ i) [0..<nat max_retries]\<rparr>))
   \<and> (raised got = Some (HTTPError 429 m) \<longrightarrow> rate_limited got)
   \<and> (raised got = None \<and> decoded got = Some (429, data) \<and> \<not> says_success data
        \<longrightarrow> rate_limited got)"
proof -
  have a: "\<exists>r. get_air_quality_data remote now cty sta ctr 3 1 w
              = (Success r, w\<lparr>requests_made := requests_made w + 3, sleeps := sleeps w @ [1, 2]\<rparr>)
            \<and> r_city r = cty \<and> r_state r = sta \<and> r_country r = ctr
            \<and> daily_summary (history cd) (forecast cd) (aqi_us r) now = Inr (daily_aqi_summary r)"
    if h: "rate_limited (remote (requests_made w))" "rate_limited (remote (requests_made w + 1))"
      "success_payload (remote (requests_made w + 2)) = Some cd"
  proof -
    have two: "\<forall>i<2. rate_limited (remote (requests_made w + i))"
      using h(1,2) by (auto simp: less_Suc_eq numeral_2_eq_2)
    have s: "success_payload (remote (requests_made (after 2 (backoff 1 2) w))) = Some cd"
      using h(3) by (simp add: after_def)
    from attempts_after_rate_limits[OF two, of cty sta ctr now 3 1 1]
    have e: "get_air_quality_data remote now cty sta ctr 3 1 w
        = attempts remote cty sta ctr now 3 (Suc 0) (1 * 2 ^ 2) (after 2 (backoff 1 2) w)"
      by (simp add: get_air_quality_data_def)
    have b: "backoff 1 2 = [1, 2]"
      by (simp add: backoff_def numeral_2_eq_2)
    have w: "after 1 [] (after 2 [1, 2] w)
        = w\<lparr>requests_made := requests_made w + 3, sleeps := sleeps w @ [1, 2]\<rparr>"
      by (simp add: after_def)
    from attempts_success_step[of remote "after 2 (backoff 1 2) w" cd cty sta ctr now 3 0 "1 * 2 ^ 2", OF s]
    show ?thesis
      unfolding e unfolding b w by blast
  qed
  have b: "get_air_quality_data remote now cty sta ctr max_retries delay w
          = (Failure (ErrText (''Failed to retrieve data for '' @ cty @ '' after ''
                @ str_int max_retries @ '' attempts due to rate limiting.'')),
             w\<lparr>requests_made := requests_made w + nat max_retries,
               sleeps := sleeps w @ map (\<lambda>i. delay * 2 ^ i) [0..<nat max_retries]\<rparr>)"
    if h: "\<forall>i < nat max_retries. rate_limited (remote (requests_made w + i))"
    using attempts_after_rate_limits[OF h, of cty sta ctr now max_retries 0 delay]
    by (simp add: get_air_quality_data_def after_def backoff_def)
  have c: "raised got = Some (HTTPError 429 m) \<longrightarrow> rate_limited got"
    by (simp add: rate_limited_def)
  have d: "raised got = None \<and> decoded got = Some (429, data) \<and> \<not> says_success data
        \<longrightarrow> rate_limited got"
    by (simp add: rate_limited_def)
  from a b c d show ?thesis by blast
qed

theorem rate_limit_backoff_witness:
  "rate_limited (remote_of [too_many_raised, too_many_returned, ok_response] (requests_made start))
   \<and> rate_limited (remote_of [too_many_raised, too_many_returned, ok_response] (requests_made start + 1))
   \<and> success_payload (remote_of [too_many_raised, too_many_returned, ok_response]
        (requests_made start + 2)) = Some sample_city
   \<and> get_air_quality_data (remote_of [too_many_raised, too_many_returned, ok_response])
        ''2024-01-03'' ''Springfield'' ''IL'' ''USA'' 3 1 start
       = (Success sample_result, \<lparr>requests_made = 3, sleeps = [1, 2]\<rparr>)
   \<and> (\<exists>r. get_air_quality_data (remote_of [too_many_raised, too_many_returned, ok_response])
        ''2024-01-03'' ''Springfield'' ''IL'' ''USA'' 3 1 start
       = (Success r, start\<lparr>requests_made := requests_made start + 3, sleeps := sleeps start @ [1, 2]\<rparr>))
   \<and> rate_limited (remote_of [too_many_returned, too_many_raised, too_many_returned] (requests_made start + 0))
   \<and> rate_limited (remote_of [too_many_returned, too_many_raised, too_many_returned] (requests_made start + 1))
   \<and> rate_limited (remote_of [too_many_returned, too_many_raised, too_many_returned] (requests_made start + 2))
   \<and> get_air_quality_data (remote_of [too_many_returned, too_many_raised, too_many_returned])
        ''2024-01-03'' ''Springfield'' ''IL'' ''USA'' 3 1 start
       = (Failure (ErrText (''Failed to retrieve data for '' @ ''Springfield'' @ '' after ''
                @ str_int 3 @ '' attempts due to rate limiting.'')),
          start\<lparr>requests_made := requests_made start + nat 3,
                sleeps := sleeps start @ map (\<lambda>i. 1 * 2 ^ i) [0..<nat 3]\<rparr>)
   \<and> start\<lparr>requests_made := requests_made start + nat 3,
            sleeps := sleeps start @ map (\<lambda>i. 1 * 2 ^ i) [0..<nat 3]\<rparr>
       = \<lparr>requests_made = 3, sleeps = [1, 2, 4]\<rparr>"
proof -
  let ?ok = "remote_of [too_many_raised, too_many_returned, ok_response]"
  let ?no = "remote_of [too_many_returned, too_many_raised, too_many_returned]"
  have a0: "rate_limited (?ok (requests_made start))" by code_simp
  have a1: "rate_limited (?ok (requests_made start + 1))" by code_simp
  have a2: "success_payload (?ok (requests_made start + 2)) = Some sample_city" by code_simp
  have c: "get_air_quality_data ?ok ''2024-01-03'' ''Springfield'' ''IL'' ''USA'' 3 1 start
       = (Success sample_result, \<lparr>requests_made = 3, sleeps = [1, 2]\<rparr>)"
    by code_simp
  note t = rate_limit_backoff [of ?ok start sample_city "''2024-01-03''" "''Springfield''"
      "''IL''" "''USA''" 3 1 too_many_raised "''x''" None]
  from t a0 a1 a2
  have s: "\<exists>r. get_air_quality_data ?ok ''2024-01-03'' ''Springfield'' ''IL'' ''USA'' 3 1 start
       = (Success r, start\<lparr>requests_made := requests_made start + 3, sleeps := sleeps start @ [1, 2]\<rparr>)"
    by blast
  have b0: "rate_limited (?no (requests_made start + 0))" by code_simp
  have b1: "rate_limited (?no (requests_made start + 1))" by code_simp
  have b2: "rate_limited (?no (requests_made start + 2))" by code_simp
  have all: "\<forall>i < nat 3. rate_limited (?no (requests_made start + i))"
  proof (intro allI impI)
    fix i :: nat assume "i < nat 3"
    then have "i = 0 \<or> i = 1 \<or> i = 2" by auto
    with b0 b1 b2 show "rate_limited (?no (requests_made start + i))" by auto
  qed
  note u = rate_limit_backoff [of ?no start sample_city "''2024-01-03''" "''Springfield''"
      "''IL''" "''USA''" 3 1 too_many_raised "''x''" None]
  from u all
  have f: "get_air_quality_data ?no ''2024-01-03'' ''Springfield'' ''IL'' ''USA'' 3 1 start
       = (Failure (ErrText (''Failed to retrieve data for '' @ ''Springfield'' @ '' after ''
                @ str_int 3 @ '' attempts due to rate limiting.'')),
          start\<lparr>requests_made := requests_made start + nat 3,
                sleeps := sleeps start @ map (\<lambda>i. 1 * 2 ^ i) [0..<nat 3]\<rparr>)"
    by blast
  have w: "start\<lparr>requests_made := requests_made start + nat 3,
            sleeps := sleeps start @ map (\<lambda>i. 1 * 2 ^ i) [0..<nat 3]\<rparr>
       = \<lparr>requests_made = 3, sleeps = [1, 2, 4]\<rparr>"
    by code_simp
  show ?thesis
    by (intro conjI a0 a1 a2 c s b0 b1 b2 f w)
qed

text \<open>
  C7. When an attempt, the first or one after some 429s, meets anything that is neither a
  success payload nor a 429 (an HTTP error other than 429, another request exception, any
  other exception, a payload whose status is not success), the call returns a failure
  result with that attempt: no further request and no sleep after it. The error is the
  message of the handler concerned, or the payload's data.
\<close>

theorem other_failures_return_at_once:
  assumes "j < nat max_retries"
    and "\<forall>i<j. rate_limited (remote (requests_made w + i))"
    and "\<not> rate_limited (remote (requests_made w + j))"
    and "success_payload (remote (requests_made w + j)) = None"
  shows "\<exists>err. get_air_quality_data remote now cty sta ctr max_retries delay w
        = (Failure err, w\<lparr>requests_made := requests_made w + j + 1,
                          sleeps := sleeps w @ map (\<lambda>i. delay * 2 ^ i) [0..<j]\<rparr>)
     \<and> (\<forall>c m. raised (remote (requests_made w + j)) = Some (HTTPError c m)
           \<longrightarrow> c \<noteq> 429 \<and> err = ErrText (''API HTTP Error: '' @ m))
     \<and> (\<forall>m. raised (remote (requests_made w + j)) = Some (RequestException m)
           \<longrightarrow> err = ErrText (''API Request Error: '' @ m))
     \<and> (\<forall>e. raised (remote (requests_made w + j)) = Some e
             \<and> (\<forall>c m. e \<noteq> HTTPError c m) \<and> (\<forall>m. e \<noteq> RequestException m)
           \<longrightarrow> err = ErrText (''An unexpected error occurred: '' @ str_exn e))
     \<and> (\<forall>code d. raised (remote (requests_made w + j)) = None
             \<and> decoded (remote (requests_made w + j)) = Some (code, Some d)
             \<and> p_status d \<noteq> Some ''success''
           \<longrightarrow> code \<noteq> 429
             \<and> err = (case p_data d of Some x \<Rightarrow> ErrData x
                 | None \<Rightarrow> ErrText (''City data not available. Status: '' @ str_int code)))"
proof -
  define got where "got = remote (requests_made w + j)"
  define w' where "w' = after j (backoff delay j) w"
  from assms(1) have "Suc j \<le> nat max_retries" by simp
  then obtain n where n: "nat max_retries = j + Suc n"
    by (metis le_iff_add add_Suc_right add_Suc)
  have rq: "requests_made w' = requests_made w + j" by (simp add: w'_def after_def)
  have nr: "\<not> rate_limited (remote (requests_made w'))"
    and ns: "success_payload (remote (requests_made w')) = None"
    using assms(3,4) by (simp_all add: rq)
  have e1: "get_air_quality_data remote now cty sta ctr max_retries delay w
      = attempts remote cty sta ctr now max_retries (Suc n) (delay * 2 ^ j) w'"
    unfolding get_air_quality_data_def n w'_def
    by (rule attempts_after_rate_limits[OF assms(2)])
  have e2: "attempts remote cty sta ctr now max_retries (Suc n) (delay * 2 ^ j) w'
      = (Failure (failure_value got), after 1 [] w')"
    using attempts_failure_step[of remote w' cty sta ctr now max_retries n "delay * 2 ^ j", OF nr ns]
    by (simp add: rq got_def)
  have e3: "after 1 [] w' = w\<lparr>requests_made := requests_made w + j + 1,
           sleeps := sleeps w @ map (\<lambda>i. delay * 2 ^ i) [0..<j]\<rparr>"
    by (simp add: w'_def after_def backoff_def)
  have r: "get_air_quality_data remote now cty sta ctr max_retries delay w
      = (Failure (failure_value got),
         w\<lparr>requests_made := requests_made w + j + 1,
           sleeps := sleeps w @ map (\<lambda>i. delay * 2 ^ i) [0..<j]\<rparr>)"
    unfolding e1 e2 e3 ..
  have nrl: "\<not> rate_limited got" using assms(3) by (simp add: got_def)
  show ?thesis
    unfolding got_def[symmetric]
  proof (intro exI[of _ "failure_value got"] conjI allI impI)
    show "get_air_quality_data remote now cty sta ctr max_retries delay w
      = (Failure (failure_value got),
         w\<lparr>requests_made := requests_made w + j + 1,
           sleeps := sleeps w @ map (\<lambda>i. delay * 2 ^ i) [0..<j]\<rparr>)"
      by (rule r)
  next
    fix c m assume "raised got = Some (HTTPError c m)"
    then show "c \<noteq> 429" by (rule not_rate_limited_http[OF nrl])
  next
    fix c m assume "raised got = Some (HTTPError c m)"
    then show "failure_value got = ErrText (''API HTTP Error: '' @ m)"
      by (rule failure_value_http)
  next
    fix m assume "raised got = Some (RequestException m)"
    then show "failure_value got = ErrText (''API Request Error: '' @ m)"
      by (rule failure_value_request)
  next
    fix e assume "raised got = Some e \<and> (\<forall>c m. e \<noteq> HTTPError c m) \<and> (\<forall>m. e \<noteq> RequestException m)"
    then show "failure_value got = ErrText (''An unexpected error occurred: '' @ str_exn e)"
      using failure_value_other by blast
  next
    fix code d
    assume "raised got = None \<and> decoded got = Some (code, Some d) \<and> p_status d \<noteq> Some ''success''"
    then show "code \<noteq> 429" using not_rate_limited_payload[OF nrl] by blast
  next
    fix code d
    assume "raised got = None \<and> decoded got = Some (code, Some d) \<and> p_status d \<noteq> Some ''success''"
    then show "failure_value got = (case p_data d of Some x \<Rightarrow> ErrData x
                 | None \<Rightarrow> ErrText (''City data not available. Status: '' @ str_int code))"
      using failure_value_payload by blast
  qed
qed

theorem other_failures_return_at_once_witness:
  "(0::nat) < nat 3
   \<and> \<not> rate_limited (remote_of [fail_response] (requests_made start + 0))
   \<and> success_payload (remote_of [fail_response] (requests_made start + 0)) = None
   \<and> get_air_quality_data (remote_of [fail_response]) ''2024-01-03''
        ''Springfield'' ''IL'' ''USA'' 3 1 start
       = (Failure (ErrData city_not_found), \<lparr>requests_made = 1, sleeps = []\<rparr>)
   \<and> (1::nat) < nat 3
   \<and> rate_limited (remote_of [too_many_raised] (requests_made start + 0))
   \<and> \<not> rate_limited (remote_of [too_many_raised] (requests_made start + 1))
   \<and> success_payload (remote_of [too_many_raised] (requests_made start + 1)) = None
   \<and> raised (remote_of [too_many_raised] (requests_made start + 1))
       = Some (RequestException ''Connection refused'')
   \<and> (\<exists>err. get_air_quality_data (remote_of [too_many_raised]) ''2024-01-03''
        ''Springfield'' ''IL'' ''USA'' 3 1 start
       = (Failure err, start\<lparr>requests_made := requests_made start + 1 + 1,
                          sleeps := sleeps start @ map (\<lambda>i. 1 * 2 ^ i) [0..<1]\<rparr>)
       \<and> err = ErrText (''API Request Error: '' @ ''Connection refused''))"
proof -
  let ?f = "remote_of [fail_response]"
  let ?g = "remote_of [too_many_raised]"
  have j0: "(0::nat) < nat 3" by simp
  have j1: "(1::nat) < nat 3" by simp
  have f1: "\<not> rate_limited (?f (requests_made start + 0))" by code_simp
  have f2: "success_payload (?f (requests_made start + 0)) = None" by code_simp
  have c: "get_air_quality_data ?f ''2024-01-03'' ''Springfield'' ''IL'' ''USA'' 3 1 start
       = (Failure (ErrData city_not_found), \<lparr>requests_made = 1, sleeps = []\<rparr>)"
    by code_simp
  have g0: "rate_limited (?g (requests_made start + 0))" by code_simp
  then have g0': "\<forall>i<1. rate_limited (?g (requests_made start + i))" by simp
  have g1: "\<not> rate_limited (?g (requests_made start + 1))" by code_simp
  have g2: "success_payload (?g (requests_made start + 1)) = None" by code_simp
  have g3: "raised (?g (requests_made start + 1)) = Some (RequestException ''Connection refused'')"
    by code_simp
  from other_failures_return_at_once [OF j1 g0' g1 g2, of "''2024-01-03''" "''Springfield''"
      "''IL''" "''USA''" 1] g3
  have r: "\<exists>err. get_air_quality_data ?g ''2024-01-03'' ''Springfield'' ''IL'' ''USA'' 3 1 start
       = (Failure err, start\<lparr>requests_made := requests_made start + 1 + 1,
                          sleeps := sleeps start @ map (\<lambda>i. 1 * 2 ^ i) [0..<1]\<rparr>)
       \<and> err = ErrText (''API Request Error: '' @ ''Connection refused'')"
    by blast
  show ?thesis
    by (intro conjI j0 f1 f2 c j1 g0 g1 g2 g3 r)
qed

end
